theory Spec2Isabelle
  imports Complex_Main
begin

section \<open>JavaScript values read by the client\<close>

text \<open>
  The client (\<^verbatim>\<open>lib/SmartThings.js\<close>) only ever inspects values that were parsed from
  JSON: the token file, the body of a token response, the body of a status response.
  A parsed object is the association list of its own properties (the first binding of
  a key is the property; inherited prototype properties are not modelled). The
  JavaScript value \<^verbatim>\<open>undefined\<close> is \<open>None\<close> of type \<open>json option\<close>, the value
  \<^verbatim>\<open>null\<close> is \<open>Some JNull\<close>.
\<close>

datatype json =
    JNull
  | JBool bool
  | JNum rat
  | JStr string
  | JArr "json list"
  | JObj "(string \<times> json) list"

type_synonym jsval = "json option"

text \<open>The errors a promise of the client is rejected with.\<close>

datatype error =
    TypeError
    \<comment> \<open>reading a property of \<^verbatim>\<open>null\<close> or \<^verbatim>\<open>undefined\<close>\<close>
  | AxiosError "nat option" bool
    \<comment> \<open>a failed request: \<^verbatim>\<open>err.response?.status\<close> (\<open>None\<close>: no response was received),
        and what the retry library's own classification of the error's code and of
        the request's method says (see \<open>isNetworkOrIdempotentRequestError\<close>)\<close>
  | NoRefreshToken
    \<comment> \<open>the \<^verbatim>\<open>Error\<close> thrown at line 149\<close>
  | InitialTokenFailure
    \<comment> \<open>the \<^verbatim>\<open>Error\<close> thrown at line 144\<close>
  | StatusFailure string
    \<comment> \<open>the \<^verbatim>\<open>Error\<close> thrown at line 204, for that device id\<close>
  | IOError
    \<comment> \<open>\<^verbatim>\<open>fs.writeFile\<close> rejected\<close>

text \<open>Truthiness (\<^verbatim>\<open>if (x)\<close>, \<^verbatim>\<open>x || y\<close>, \<^verbatim>\<open>!x\<close>) and \<^verbatim>\<open>x == null\<close>.\<close>

fun truthy :: "jsval \<Rightarrow> bool" where
  "truthy None = False"
| "truthy (Some JNull) = False"
| "truthy (Some (JBool b)) = b"
| "truthy (Some (JNum n)) = (n \<noteq> 0)"
| "truthy (Some (JStr s)) = (s \<noteq> [])"
| "truthy (Some (JArr xs)) = True"
| "truthy (Some (JObj kvs)) = True"


text \<open>
  Property reads. An array and a string have their indices and \<^verbatim>\<open>length\<close>; a key is
  an index when it is the canonical decimal numeral of a number.
\<close>

definition is_digit :: "char \<Rightarrow> bool" where
  "is_digit c = (48 \<le> (of_char c :: nat) \<and> (of_char c :: nat) \<le> 57)"

definition array_index :: "string \<Rightarrow> nat option" where
  "array_index k =
     (if k = [] \<or> \<not> list_all is_digit k \<or> (1 < length k \<and> hd k = CHR ''0'') then None
      else Some (foldl (\<lambda>n c. 10 * n + (of_char c - 48)) 0 k))"

fun getProp :: "json \<Rightarrow> string \<Rightarrow> jsval" where
  "getProp (JObj kvs) k = map_of kvs k"
| "getProp (JArr xs) k =
     (if k = ''length'' then Some (JNum (of_nat (length xs)))
      else case array_index k of
             Some i \<Rightarrow> (if i < length xs then Some (xs ! i) else None)
           | None \<Rightarrow> None)"
| "getProp (JStr s) k =
     (if k = ''length'' then Some (JNum (of_nat (length s)))
      else case array_index k of
             Some i \<Rightarrow> (if i < length s then Some (JStr [s ! i]) else None)
           | None \<Rightarrow> None)"
| "getProp (JNum n) k = None"
| "getProp (JBool b) k = None"
| "getProp JNull k = None"

text \<open>\<^verbatim>\<open>x[k]\<close> throws on \<^verbatim>\<open>null\<close> and \<^verbatim>\<open>undefined\<close>; \<^verbatim>\<open>x?.[k]\<close> gives \<^verbatim>\<open>undefined\<close> there.\<close>

definition member :: "jsval \<Rightarrow> string \<Rightarrow> error + jsval" where
  "member x k = (case x of None \<Rightarrow> Inl TypeError
                  | Some JNull \<Rightarrow> Inl TypeError
                  | Some v \<Rightarrow> Inr (getProp v k))"

definition opt_member :: "jsval \<Rightarrow> string \<Rightarrow> jsval" where
  "opt_member x k = (case x of None \<Rightarrow> None
                      | Some JNull \<Rightarrow> None
                      | Some v \<Rightarrow> getProp v k)"



section \<open>Reading one attribute of a status snapshot\<close>


text \<open>
  The snapshot \<^verbatim>\<open>getStatus\<close> makes of a response (line 198):
  \<^verbatim>\<open>const data = res.data?.components?.main || {};\<close>
\<close>

definition statusData :: "jsval \<Rightarrow> json" where
  "statusData resdata =
     (case opt_member (opt_member resdata ''components'') ''main'' of
        None \<Rightarrow> JObj []
      | Some m \<Rightarrow> (if truthy (Some m) then m else JObj []))"

section \<open>The client's state\<close>

text \<open>
  A request configuration, as far as the client reads or writes it. \<open>rid\<close> names the
  promise that the request's caller awaits; \<open>retry_flag\<close> is the property \<^verbatim>\<open>_retry\<close>
  that the response interceptor sets. \<open>Bearer v\<close> is the string
  \<^verbatim>\<open>`Bearer ${v}`\<close>.
\<close>

datatype http_method = GET | POST

datatype header = Bearer jsval

record config =
  rid :: nat
  http_method :: http_method
  url :: string
  payload :: jsval
  retry_flag :: bool
  authorization :: "header option"

text \<open>
  What the client does to the outside, in the order it does it: a request put on the
  network by \<^verbatim>\<open>this.client\<close> (after the request interceptor), the two calls to the
  token endpoint, the write of the token file, the rejection of the promise of a request
  by the response interceptor, and what an operation gives to the caller that awaits it.
\<close>

datatype effect =
    Sent config
  | RefreshCall jsval
  | ExchangeCall string
  | FileWrite json
  | RequestRejected nat error
  | Returned nat "error + jsval"

subsection \<open>The status cache\<close>

text \<open>
  Modelled from the spec: the class \<^verbatim>\<open>LRUCache\<close> comes from the package \<^verbatim>\<open>lru-cache\<close>,
  which is not under src/; the source only constructs it
  (\<^verbatim>\<open>new LRUCache({ max: 100, ttl: 5 * 1000 })\<close>) and calls \<^verbatim>\<open>get\<close>, \<^verbatim>\<open>set\<close> and
  \<^verbatim>\<open>delete\<close>. An entry is a key, a snapshot and the time it was stored at; it expires
  after the time to live and the cache is bounded by its capacity, evicting the oldest
  entry beyond it. The entries are kept in the order of their last use, most recent
  first, as the name of the class says: a \<^verbatim>\<open>get\<close> that finds a live entry moves it to
  the front, a \<^verbatim>\<open>get\<close> that finds an expired entry removes it, and a \<^verbatim>\<open>set\<close> that
  exceeds the capacity drops the entry at the back.
\<close>

record lru =
  entries :: "(string \<times> json \<times> nat) list"
  max_entries :: nat
  ttl :: nat

definition lru_new :: "nat \<Rightarrow> nat \<Rightarrow> lru" where
  "lru_new m t = \<lparr>entries = [], max_entries = m, ttl = t\<rparr>"

definition lru_delete :: "lru \<Rightarrow> string \<Rightarrow> lru" where
  "lru_delete c k = c\<lparr>entries := filter (\<lambda>e. fst e \<noteq> k) (entries c)\<rparr>"

definition lru_get :: "lru \<Rightarrow> nat \<Rightarrow> string \<Rightarrow> jsval \<times> lru" where
  "lru_get c now k =
     (case find (\<lambda>e. fst e = k) (entries c) of
        None \<Rightarrow> (None, c)
      | Some (k', v, t) \<Rightarrow>
          (if ttl c < now - t then (None, lru_delete c k)
           else (Some v, c\<lparr>entries := (k, v, t) # filter (\<lambda>e. fst e \<noteq> k) (entries c)\<rparr>)))"

definition lru_set :: "lru \<Rightarrow> nat \<Rightarrow> string \<Rightarrow> json \<Rightarrow> lru" where
  "lru_set c now k v =
     (let es = (k, v, now) # filter (\<lambda>e. fst e \<noteq> k) (entries c)
      in c\<lparr>entries := (if max_entries c < length es then butlast es else es)\<rparr>)"

subsection \<open>The fields of a \<^verbatim>\<open>SmartThings\<close> object\<close>

text \<open>
  \<open>tokens\<close>, \<open>isRefreshing\<close>, \<open>pendingRequests\<close>, \<open>cache\<close> and \<open>statusPromises\<close> are the
  fields of the source. A waiter of \<open>pendingRequests\<close> is the request it closes over. A
  promise of \<open>statusPromises\<close> is named by the caller that created it.
  The other three fields record what JavaScript keeps outside the object:
  \<open>suspended\<close>, the response handlers stopped at \<^verbatim>\<open>await this.refreshToken()\<close> (line 80),
  each with its request and with the error when \<^verbatim>\<open>refreshToken\<close> has already thrown;
  \<open>awaiting\<close>, the callers of \<^verbatim>\<open>getStatus\<close> that wait and the promise each waits for;
  \<open>trace\<close>, the effects so far.
\<close>

record client =
  tokens :: jsval
  isRefreshing :: bool
  pendingRequests :: "config list"
  cache :: lru
  statusPromises :: "string \<rightharpoonup> nat"
  suspended :: "(config \<times> error option) list"
  awaiting :: "(nat \<times> nat) list"
  trace :: "effect list"

text \<open>The constructor (lines 21-55) and \<^verbatim>\<open>init\<close> (lines 115-124), given the parsed token
  file (\<open>None\<close> when reading or parsing it throws).\<close>

definition new_client :: client where
  "new_client =
     \<lparr>tokens = Some JNull, isRefreshing = False, pendingRequests = [],
      cache = lru_new 100 (5 * 1000), statusPromises = Map.empty,
      suspended = [], awaiting = [], trace = []\<rparr>"

definition init :: "client \<Rightarrow> json option \<Rightarrow> bool \<times> client" where
  "init s file = (case file of Some j \<Rightarrow> (True, s\<lparr>tokens := Some j\<rparr>) | None \<Rightarrow> (False, s))"

section \<open>The request interceptor and the token calls\<close>

text \<open>Lines 59-67, and \<^verbatim>\<open>this.client(cfg)\<close>: the interceptor, then the network.\<close>

definition injectToken :: "client \<Rightarrow> config \<Rightarrow> config" where
  "injectToken s cfg =
     (let a = opt_member (tokens s) ''access_token''
      in if truthy a then cfg\<lparr>authorization := Some (Bearer a)\<rparr> else cfg)"

definition send :: "client \<Rightarrow> config \<Rightarrow> client" where
  "send s cfg = s\<lparr>trace := trace s @ [Sent (injectToken s cfg)]\<rparr>"

text \<open>
  \<^verbatim>\<open>_saveTokens\<close> (lines 171-175); \<open>w\<close> is how \<^verbatim>\<open>fs.writeFile\<close> settles (\<open>Some e\<close>: it
  rejects with \<open>e\<close>), and the result is how \<^verbatim>\<open>_saveTokens\<close> settles.
\<close>

definition saveTokens :: "client \<Rightarrow> json \<Rightarrow> error option \<Rightarrow> error option \<times> client" where
  "saveTokens s toks w = (w, s\<lparr>tokens := Some toks, trace := trace s @ [FileWrite toks]\<rparr>)"

text \<open>
  \<^verbatim>\<open>refreshToken\<close> (lines 148-169) in two parts. The call runs up to the first
  \<^verbatim>\<open>await\<close>: it throws without a network call when no refresh token is stored
  (\<open>Some e\<close>), or else posts to the token endpoint. The second part runs when the post
  settles with \<open>net\<close> (the response body, or the error) and the write with \<open>w\<close>.
\<close>

definition refreshToken_call :: "client \<Rightarrow> error option \<times> client" where
  "refreshToken_call s =
     (let rt = opt_member (tokens s) ''refresh_token''
      in if \<not> truthy rt then (Some NoRefreshToken, s)
         else (None, s\<lparr>trace := trace s @ [RefreshCall rt]\<rparr>))"

definition refreshToken_settle ::
  "client \<Rightarrow> error + json \<Rightarrow> error option \<Rightarrow> (error + jsval) \<times> client" where
  "refreshToken_settle s net w =
     (case net of
        Inl e \<Rightarrow> (Inl e, s)
      | Inr data \<Rightarrow>
          (case saveTokens s data w of
             (Some e, s') \<Rightarrow> (Inl e, s')
           | (None, s') \<Rightarrow> (member (tokens s') ''access_token'', s')))"

text \<open>\<^verbatim>\<open>getInitialTokens\<close> (lines 126-146): every error of the \<^verbatim>\<open>try\<close> block becomes
  the error of line 144.\<close>

definition getInitialTokens ::
  "client \<Rightarrow> string \<Rightarrow> error + json \<Rightarrow> error option \<Rightarrow> (error + unit) \<times> client" where
  "getInitialTokens s code net w =
     (let s0 = s\<lparr>trace := trace s @ [ExchangeCall code]\<rparr>
      in case net of
           Inl e \<Rightarrow> (Inl InitialTokenFailure, s0)
         | Inr data \<Rightarrow>
             (case saveTokens s0 data w of
                (Some e, s') \<Rightarrow> (Inl InitialTokenFailure, s')
              | (None, s') \<Rightarrow> (Inr (), s')))"

section \<open>The response interceptor\<close>

definition status_of :: "error \<Rightarrow> nat option" where
  "status_of e = (case e of AxiosError st f \<Rightarrow> st | _ \<Rightarrow> None)"

text \<open>\<^verbatim>\<open>_flushWaiters\<close> (lines 109-112) with the waiters of lines 95-101.\<close>

definition flush_one :: "error + jsval \<Rightarrow> client \<Rightarrow> config \<Rightarrow> client" where
  "flush_one r s original =
     (case r of
        Inl err \<Rightarrow> s\<lparr>trace := trace s @ [RequestRejected (rid original) err]\<rparr>
      | Inr newAccess \<Rightarrow> send s (original\<lparr>authorization := Some (Bearer newAccess)\<rparr>))"

definition flushWaiters :: "client \<Rightarrow> error + jsval \<Rightarrow> client" where
  "flushWaiters s r = (foldl (flush_one r) s (pendingRequests s))\<lparr>pendingRequests := []\<rparr>"

text \<open>
  The rejection handler (lines 72-105) up to its \<^verbatim>\<open>await\<close>, for the request \<open>original\<close>
  that failed with \<open>e\<close>.
\<close>

definition response_rejected :: "client \<Rightarrow> config \<Rightarrow> error \<Rightarrow> client" where
  "response_rejected s original e =
     (if status_of e = Some 401 \<and> \<not> retry_flag original then
        (let original' = original\<lparr>retry_flag := True\<rparr>
         in if \<not> isRefreshing s then
              (case refreshToken_call (s\<lparr>isRefreshing := True\<rparr>) of
                 (p, s') \<Rightarrow> s'\<lparr>suspended := suspended s' @ [(original', p)]\<rparr>)
            else s\<lparr>pendingRequests := pendingRequests s @ [original']\<rparr>)
      else s\<lparr>trace := trace s @ [RequestRejected (rid original) e]\<rparr>)"

text \<open>Lines 81-89: the handler after \<^verbatim>\<open>await this.refreshToken()\<close> has given \<open>r\<close>.\<close>

definition refresh_settled :: "client \<Rightarrow> config \<Rightarrow> error + jsval \<Rightarrow> client" where
  "refresh_settled s original r =
     (case r of
        Inr newAccess \<Rightarrow>
          send (flushWaiters (s\<lparr>isRefreshing := False\<rparr>) (Inr newAccess))
               (original\<lparr>authorization := Some (Bearer newAccess)\<rparr>)
      | Inl e \<Rightarrow>
          (let s' = flushWaiters (s\<lparr>isRefreshing := False\<rparr>) (Inl e)
           in s'\<lparr>trace := trace s' @ [RequestRejected (rid original) e]\<rparr>))"

text \<open>
  A suspended handler resumes: when its \<^verbatim>\<open>refreshToken\<close> had thrown at once, with that
  error; otherwise when the token endpoint has answered \<open>net\<close> and the write \<open>w\<close>.
\<close>

definition refresh_result :: "client \<Rightarrow> error option \<Rightarrow> error + json \<Rightarrow> error option
    \<Rightarrow> (error + jsval) \<times> client" where
  "refresh_result s p net w = (case p of Some e \<Rightarrow> (Inl e, s) | None \<Rightarrow> refreshToken_settle s net w)"

definition refresh_resume :: "client \<Rightarrow> error + json \<Rightarrow> error option \<Rightarrow> client" where
  "refresh_resume s net w =
     (case suspended s of
        [] \<Rightarrow> s
      | (original, p) # rest \<Rightarrow>
          (case refresh_result (s\<lparr>suspended := rest\<rparr>) p net w of
             (r, s') \<Rightarrow> refresh_settled s' original r))"

section \<open>Retries of transient failures\<close>







section \<open>Devices and status\<close>

definition request :: "nat \<Rightarrow> http_method \<Rightarrow> string \<Rightarrow> jsval \<Rightarrow> config" where
  "request r m u b =
     \<lparr>rid = r, http_method = m, url = u, payload = b, retry_flag = False, authorization = None\<rparr>"

text \<open>\<^verbatim>\<open>getDevices\<close> (lines 178-186): the call, and what the caller gets when the request
  has settled with \<open>r\<close> (the response's \<^verbatim>\<open>data\<close>, or the error).\<close>

definition getDevices_call :: "client \<Rightarrow> nat \<Rightarrow> client" where
  "getDevices_call s caller = send s (request caller GET ''/devices'' None)"

definition getDevices_settled :: "client \<Rightarrow> nat \<Rightarrow> error + jsval \<Rightarrow> client" where
  "getDevices_settled s caller r =
     s\<lparr>trace := trace s @
        [Returned caller
          (case r of
             Inl e \<Rightarrow> Inl e
           | Inr resdata \<Rightarrow>
               (case member resdata ''items'' of
                  Inl e \<Rightarrow> Inl e
                | Inr items \<Rightarrow> Inr (if truthy items then items else Some (JArr []))))]\<rparr>"

text \<open>
  \<^verbatim>\<open>getStatus\<close> (lines 188-210) at the time \<open>now\<close>: the synchronous part, and the
  \<^verbatim>\<open>then\<close>, \<^verbatim>\<open>catch\<close> and \<^verbatim>\<open>finally\<close> of the promise \<open>p\<close> for \<open>deviceId\<close> when its request
  has settled with \<open>r\<close>. Every caller that waits for \<open>p\<close> gets what \<open>p\<close> settles with.
\<close>

definition status_key :: "string \<Rightarrow> string" where
  "status_key deviceId = ''status-'' @ deviceId"

definition status_url :: "string \<Rightarrow> string" where
  "status_url deviceId = ''/devices/'' @ deviceId @ ''/status''"

definition getStatus_call :: "client \<Rightarrow> nat \<Rightarrow> nat \<Rightarrow> string \<Rightarrow> client" where
  "getStatus_call s now caller deviceId =
     (case lru_get (cache s) now (status_key deviceId) of
        (cached, c') \<Rightarrow>
          (let s1 = s\<lparr>cache := c'\<rparr>
           in if truthy cached then s1\<lparr>trace := trace s1 @ [Returned caller (Inr cached)]\<rparr>
              else case statusPromises s1 deviceId of
                     Some p \<Rightarrow> s1\<lparr>awaiting := awaiting s1 @ [(caller, p)]\<rparr>
                   | None \<Rightarrow>
                       (send s1 (request caller GET (status_url deviceId) None))
                         \<lparr>statusPromises := (statusPromises s1)(deviceId \<mapsto> caller),
                          awaiting := awaiting s1 @ [(caller, caller)]\<rparr>))"

definition getStatus_settled ::
  "client \<Rightarrow> nat \<Rightarrow> nat \<Rightarrow> string \<Rightarrow> error + jsval \<Rightarrow> client" where
  "getStatus_settled s now p deviceId r =
     (case (case r of
              Inr resdata \<Rightarrow>
                (let data = statusData resdata
                 in (Inr (Some data), s\<lparr>cache := lru_set (cache s) now (status_key deviceId) data\<rparr>))
            | Inl e \<Rightarrow> (Inl (StatusFailure deviceId), s)) of
        (out, s1) \<Rightarrow>
          (let s2 = s1\<lparr>statusPromises := (statusPromises s1)(deviceId := None)\<rparr>
           in s2\<lparr>awaiting := filter (\<lambda>cq. snd cq \<noteq> p) (awaiting s2),
                 trace := trace s2 @
                   map (\<lambda>cq. Returned (fst cq) out) (filter (\<lambda>cq. snd cq = p) (awaiting s2))\<rparr>))"

text \<open>\<^verbatim>\<open>sendCommand\<close> (lines 212-222).\<close>

definition command_url :: "string \<Rightarrow> string" where
  "command_url deviceId = ''/devices/'' @ deviceId @ ''/commands''"

definition sendCommand_call :: "client \<Rightarrow> nat \<Rightarrow> string \<Rightarrow> json \<Rightarrow> client" where
  "sendCommand_call s caller deviceId command =
     (let commands = (case command of JArr xs \<Rightarrow> command | _ \<Rightarrow> JArr [command]);
          s1 = s\<lparr>cache := lru_delete (cache s) (status_key deviceId)\<rparr>
      in send s1 (request caller POST (command_url deviceId)
                    (Some (JObj [(''commands'', commands)]))))"

definition sendCommand_settled :: "client \<Rightarrow> nat \<Rightarrow> error + jsval \<Rightarrow> client" where
  "sendCommand_settled s caller r =
     s\<lparr>trace := trace s @
        [Returned caller (case r of Inl e \<Rightarrow> Inl e | Inr res \<Rightarrow> Inr None)]\<rparr>"

section \<open>Runs of the client\<close>

text \<open>
  JavaScript runs one piece of code at a time, up to its next \<^verbatim>\<open>await\<close>. A run of the
  client is a sequence of such pieces, each started from outside: a call of an
  operation, or the settling of something the client waits for.
\<close>

datatype event =
    Init "json option"
  | GetInitialTokens string "error + json" "error option"
  | ResponseFails config error
  | RefreshSettles "error + json" "error option"
  | CallGetDevices nat
  | DevicesSettle nat "error + jsval"
  | CallGetStatus nat nat string
  | StatusSettles nat nat string "error + jsval"
  | CallSendCommand nat string json
  | CommandSettles nat "error + jsval"

fun step :: "client \<Rightarrow> event \<Rightarrow> client" where
  "step s (Init file) = snd (init s file)"
| "step s (GetInitialTokens code net w) = snd (getInitialTokens s code net w)"
| "step s (ResponseFails original e) = response_rejected s original e"
| "step s (RefreshSettles net w) = refresh_resume s net w"
| "step s (CallGetDevices caller) = getDevices_call s caller"
| "step s (DevicesSettle caller r) = getDevices_settled s caller r"
| "step s (CallGetStatus now caller deviceId) = getStatus_call s now caller deviceId"
| "step s (StatusSettles now p deviceId r) = getStatus_settled s now p deviceId r"
| "step s (CallSendCommand caller deviceId command) = sendCommand_call s caller deviceId command"
| "step s (CommandSettles caller r) = sendCommand_settled s caller r"

definition run :: "client \<Rightarrow> event list \<Rightarrow> client" where
  "run s es = foldl step s es"

section \<open>Notions used to state the properties\<close>

text \<open>Several responses fail one after the other, each handled up to its \<^verbatim>\<open>await\<close>;
  several callers call \<^verbatim>\<open>getStatus\<close> for one device, each at its own time.\<close>

definition responses_rejected :: "client \<Rightarrow> (config \<times> error) list \<Rightarrow> client" where
  "responses_rejected s fs = foldl (\<lambda>s' f. response_rejected s' (fst f) (snd f)) s fs"

definition getStatus_calls :: "client \<Rightarrow> string \<Rightarrow> (nat \<times> nat) list \<Rightarrow> client" where
  "getStatus_calls s deviceId calls =
     foldl (\<lambda>s' c. getStatus_call s' (fst c) (snd c) deviceId) s calls"

text \<open>What the caller of a request that waited for a refresh sees when the refresh
  has given \<open>r\<close>: its request sent again, marked and with the new token, or its promise
  rejected.\<close>

definition replay_or_reject :: "error + jsval \<Rightarrow> config \<Rightarrow> effect" where
  "replay_or_reject r original =
     (case r of
        Inr newAccess \<Rightarrow>
          Sent (original\<lparr>retry_flag := True, authorization := Some (Bearer newAccess)\<rparr>)
      | Inl e \<Rightarrow> RequestRejected (rid original) e)"

text \<open>What flushing one waiter does, seen from outside (in the state \<open>s\<close> that the
  request interceptor reads the token from).\<close>

definition flush_effect :: "client \<Rightarrow> error + jsval \<Rightarrow> config \<Rightarrow> effect" where
  "flush_effect s r original =
     (case r of
        Inl e \<Rightarrow> RequestRejected (rid original) e
      | Inr tok \<Rightarrow> Sent (injectToken s (original\<lparr>authorization := Some (Bearer tok)\<rparr>)))"

text \<open>An event that stores a snapshot of the device in the cache: a fetch of its status
  that settles with a response.\<close>

definition stores_status :: "string \<Rightarrow> event \<Rightarrow> bool" where
  "stores_status deviceId ev =
     (case ev of
        StatusSettles now p d r \<Rightarrow> d = deviceId \<and> (case r of Inr b \<Rightarrow> True | Inl e \<Rightarrow> False)
      | _ \<Rightarrow> False)"


definition refresh_ok :: "client \<Rightarrow> bool" where
  "refresh_ok s \<longleftrightarrow>
     length (suspended s) \<le> 1 \<and>
     (isRefreshing s \<longleftrightarrow> suspended s \<noteq> []) \<and>
     (pendingRequests s \<noteq> [] \<longrightarrow> isRefreshing s) \<and>
     list_all retry_flag (pendingRequests s) \<and>
     list_all (\<lambda>x. retry_flag (fst x)) (suspended s)"

section \<open>Properties\<close>

subsection \<open>Values\<close>



lemma member_of_value: "x \<noteq> JNull \<Longrightarrow> member (Some x) k = Inr (getProp x k)"
  by (cases x) (simp_all add: member_def)

lemma opt_member_of_value: "x \<noteq> JNull \<Longrightarrow> opt_member (Some x) k = getProp x k"
  by (cases x) (simp_all add: opt_member_def)

lemma opt_member_None [simp]: "opt_member None k = None"
  by (simp add: opt_member_def)



subsection \<open>Reading an attribute\<close>




subsection \<open>The cache\<close>

lemma lru_delete_params [simp]:
  "max_entries (lru_delete c k) = max_entries c" "ttl (lru_delete c k) = ttl c"
  by (simp_all add: lru_delete_def)

lemma lru_set_params [simp]:
  "max_entries (lru_set c now k v) = max_entries c" "ttl (lru_set c now k v) = ttl c"
  by (simp_all add: lru_set_def Let_def)

lemma lru_get_params [simp]:
  "max_entries (snd (lru_get c now k)) = max_entries c" "ttl (snd (lru_get c now k)) = ttl c"
  by (simp_all add: lru_get_def split: option.splits prod.splits)





lemma find_Some_mem: "find P xs = Some x \<Longrightarrow> x \<in> set xs \<and> P x"
  by (induction xs) (auto split: if_splits)


lemma lru_get_miss_no_entry:
  "find (\<lambda>e. fst e = k) (entries c) = None \<Longrightarrow> lru_get c now k = (None, c)"
  by (simp add: lru_get_def)




text \<open>What each piece of code does to the cache.\<close>

lemma cache_send [simp]: "cache (send s cfg) = cache s"
  by (simp add: send_def)

lemma cache_getStatus_call:
  "cache (getStatus_call s now caller d) = snd (lru_get (cache s) now (status_key d))"
  by (simp add: getStatus_call_def Let_def split: prod.splits option.splits)

lemma cache_getStatus_settled:
  "cache (getStatus_settled s now p d r) =
     (case r of Inr b \<Rightarrow> lru_set (cache s) now (status_key d) (statusData b) | Inl e \<Rightarrow> cache s)"
  by (simp add: getStatus_settled_def Let_def split: sum.splits)

lemma cache_sendCommand_call:
  "cache (sendCommand_call s caller d cmd) = lru_delete (cache s) (status_key d)"
  by (simp add: sendCommand_call_def Let_def)

lemma cache_flushWaiters [simp]: "cache (flushWaiters s r) = cache s"
proof -
  have "cache (foldl (flush_one r) s ws) = cache s" for ws
    by (induction ws arbitrary: s) (auto simp: flush_one_def split: sum.splits)
  then show ?thesis by (simp add: flushWaiters_def)
qed

lemma cache_refresh_result [simp]: "cache (snd (refresh_result s p net w)) = cache s"
  by (simp add: refresh_result_def refreshToken_settle_def saveTokens_def
      split: option.splits sum.splits)

lemma cache_refresh_settled [simp]: "cache (refresh_settled s original r) = cache s"
  by (simp add: refresh_settled_def Let_def split: sum.splits)

lemma cache_refresh_resume [simp]: "cache (refresh_resume s net w) = cache s"
proof (cases "suspended s")
  case Nil
  then show ?thesis by (simp add: refresh_resume_def)
next
  case (Cons a rest)
  obtain original p where a: "a = (original, p)" by (cases a)
  obtain r s' where rr: "refresh_result (s\<lparr>suspended := rest\<rparr>) p net w = (r, s')"
    by (cases "refresh_result (s\<lparr>suspended := rest\<rparr>) p net w")
  have "cache (snd (refresh_result (s\<lparr>suspended := rest\<rparr>) p net w)) = cache s" by simp
  with rr have "cache s' = cache s" by simp
  with Cons a rr show ?thesis
    by (simp add: refresh_resume_def)
qed

lemma cache_response_rejected [simp]: "cache (response_rejected s original e) = cache s"
  by (simp add: response_rejected_def refreshToken_call_def Let_def split: prod.splits)

lemma cache_other [simp]:
  "cache (snd (init s file)) = cache s"
  "cache (snd (getInitialTokens s code net w)) = cache s"
  "cache (getDevices_call s caller) = cache s"
  "cache (getDevices_settled s caller r) = cache s"
  "cache (sendCommand_settled s caller r) = cache s"
  by (simp_all add: init_def getInitialTokens_def saveTokens_def getDevices_call_def
      getDevices_settled_def sendCommand_settled_def Let_def split: option.splits sum.splits)





subsection \<open>Status reads\<close>

text \<open>The definitions a run on concrete events is evaluated with.\<close>

lemmas eval_defs =
  run_def new_client_def lru_new_def lru_get_def lru_set_def lru_delete_def
  init_def injectToken_def send_def saveTokens_def refreshToken_call_def
  refreshToken_settle_def getInitialTokens_def status_of_def flush_one_def
  flushWaiters_def response_rejected_def refresh_settled_def refresh_result_def
  refresh_resume_def request_def getDevices_call_def getDevices_settled_def
  status_key_def status_url_def getStatus_call_def getStatus_settled_def
  command_url_def sendCommand_call_def sendCommand_settled_def
  responses_rejected_def getStatus_calls_def replay_or_reject_def
  statusData_def opt_member_def member_def Let_def




lemma getStatus_call_fetch:
  assumes "fst (lru_get (cache s) now (status_key d)) = None" "statusPromises s d = None"
  shows "getStatus_call s now caller d =
           s\<lparr>cache := snd (lru_get (cache s) now (status_key d)),
             statusPromises := (statusPromises s)(d \<mapsto> caller),
             awaiting := awaiting s @ [(caller, caller)],
             trace := trace s @ [Sent (injectToken s (request caller GET (status_url d) None))]\<rparr>"
  using assms
  by (cases "lru_get (cache s) now (status_key d)")
     (simp add: getStatus_call_def send_def injectToken_def Let_def)

lemma getStatus_call_join:
  assumes "fst (lru_get (cache s) now (status_key d)) = None" "statusPromises s d = Some p"
  shows "getStatus_call s now caller d =
           s\<lparr>cache := snd (lru_get (cache s) now (status_key d)),
             awaiting := awaiting s @ [(caller, p)]\<rparr>"
  using assms
  by (cases "lru_get (cache s) now (status_key d)")
     (simp add: getStatus_call_def Let_def)

lemma trace_getStatus_settled:
  "trace (getStatus_settled s now p d r) =
     trace s @ map (\<lambda>cq. Returned (fst cq)
                     (case r of Inr b \<Rightarrow> Inr (Some (statusData b)) | Inl e \<Rightarrow> Inl (StatusFailure d)))
                (filter (\<lambda>cq. snd cq = p) (awaiting s))"
  by (cases r) (simp_all add: getStatus_settled_def Let_def)

lemma statusPromises_getStatus_settled:
  "statusPromises (getStatus_settled s now p d r) = (statusPromises s)(d := None)"
  by (cases r) (simp_all add: getStatus_settled_def Let_def)






subsection \<open>Time to live and capacity of the status cache\<close>







subsection \<open>One fetch for concurrent status reads\<close>

lemma lru_get_absent:
  "k \<notin> fst ` set (entries c) \<Longrightarrow> lru_get c now k = (None, c)"
proof -
  assume "k \<notin> fst ` set (entries c)"
  then have "find (\<lambda>e. fst e = k) (entries c) = None"
    by (force simp: find_None_iff)
  then show ?thesis by (rule lru_get_miss_no_entry)
qed

lemma lru_delete_absent: "k \<notin> fst ` set (entries (lru_delete c k))"
  by (auto simp: lru_delete_def)

lemma lru_delete_idem: "lru_delete (lru_delete c k) k = lru_delete c k"
  by (simp add: lru_delete_def)

lemma lru_get_miss_cases:
  assumes "fst (lru_get c now k) = None"
  shows "snd (lru_get c now k) = c \<or> snd (lru_get c now k) = lru_delete c k"
  using assms by (auto simp: lru_get_def split: option.splits prod.splits if_splits)

lemma lru_get_after_delete: "lru_get (lru_delete c k) now k = (None, lru_delete c k)"
  by (rule lru_get_absent [OF lru_delete_absent])

text \<open>Callers that find a fetch of the device in flight join it.\<close>

lemma getStatus_calls_join:
  assumes "statusPromises s d = Some p"
      and "cache s = c0 \<or> cache s = lru_delete c0 (status_key d)"
      and "\<forall>c \<in> set calls. fst (lru_get c0 (fst c) (status_key d)) = None"
  shows "trace (getStatus_calls s d calls) = trace s \<and>
         awaiting (getStatus_calls s d calls) = awaiting s @ map (\<lambda>c. (snd c, p)) calls \<and>
         statusPromises (getStatus_calls s d calls) = statusPromises s \<and>
         tokens (getStatus_calls s d calls) = tokens s \<and>
         (cache (getStatus_calls s d calls) = c0 \<or>
          cache (getStatus_calls s d calls) = lru_delete c0 (status_key d))"
  using assms
proof (induction calls arbitrary: s)
  case Nil
  then show ?case by (simp add: getStatus_calls_def)
next
  case (Cons a calls)
  let ?k = "status_key d"
  let ?s' = "getStatus_call s (fst a) (snd a) d"
  from Cons.prems(3) have a0: "fst (lru_get c0 (fst a) ?k) = None" by simp
  from Cons.prems(2) a0 have miss: "fst (lru_get (cache s) (fst a) ?k) = None"
    by (auto simp: lru_get_after_delete)
  have c': "snd (lru_get (cache s) (fst a) ?k) = c0 \<or> snd (lru_get (cache s) (fst a) ?k) = lru_delete c0 ?k"
    using Cons.prems(2) lru_get_miss_cases [OF a0] by (auto simp: lru_get_after_delete)
  note j = getStatus_call_join [OF miss Cons.prems(1), of "snd a"]
  have 1: "statusPromises ?s' d = Some p" using j Cons.prems(1) by simp
  have 2: "cache ?s' = c0 \<or> cache ?s' = lru_delete c0 ?k" using j c' by simp
  have 3: "\<forall>c \<in> set calls. fst (lru_get c0 (fst c) ?k) = None" using Cons.prems(3) by simp
  have unf: "getStatus_calls s d (a # calls) = getStatus_calls ?s' d calls"
    by (simp add: getStatus_calls_def)
  from Cons.IH [OF 1 2 3] show ?case
    unfolding unf using j by simp
qed


lemma awaiting_filter_joined:
  "filter (\<lambda>cq. snd cq = p) (map (\<lambda>c. (snd c, p)) calls) = map (\<lambda>c. (snd c, p)) calls"
  by (induction calls) auto

text \<open>
  C2. Let N callers (N at least one) call \<^verbatim>\<open>getStatus\<close> for the same device, one after
  the other and before any fetch of the device settles, at times at which the cache
  has no live entry for the device. When no fetch of the device was in flight before
  them, the first call puts exactly one request on the network, the others none, and
  all N wait for the promise of that one fetch. When the fetch settles, with a response
  or with an error, all N callers get the same result (the snapshot of the response,
  or the status error), the entry of the device in \<^verbatim>\<open>statusPromises\<close> is removed in both
  cases, and a later call that finds no live cache entry starts a new fetch. When a
  fetch of the device was already in flight, the N calls put nothing on the network
  and all wait for that fetch.
\<close>

theorem getStatus_single_flight:
  fixes s :: client and d :: string and n0 c0 :: nat and rest :: "(nat \<times> nat) list"
    and now' now2 c2 :: nat and r :: "error + jsval"
  defines "calls \<equiv> (n0, c0) # rest"
  defines "s1 \<equiv> getStatus_calls s d calls"
  defines "out \<equiv> (case r of Inr b \<Rightarrow> Inr (Some (statusData b)) | Inl e \<Rightarrow> Inl (StatusFailure d))"
  assumes nolive: "\<forall>c \<in> set calls. fst (lru_get (cache s) (fst c) (status_key d)) = None"
  shows "case statusPromises s d of
           None \<Rightarrow>
             trace s1 = trace s @ [Sent (injectToken s (request c0 GET (status_url d) None))] \<and>
             statusPromises s1 d = Some c0 \<and>
             awaiting s1 = awaiting s @ map (\<lambda>c. (snd c, c0)) calls \<and>
             trace (getStatus_settled s1 now' c0 d r)
               = trace s1 @ map (\<lambda>c. Returned c out)
                              (map fst (filter (\<lambda>cq. snd cq = c0) (awaiting s)) @ map snd calls) \<and>
             statusPromises (getStatus_settled s1 now' c0 d r) d = None \<and>
             (fst (lru_get (cache (getStatus_settled s1 now' c0 d r)) now2 (status_key d)) = None \<longrightarrow>
                trace (getStatus_call (getStatus_settled s1 now' c0 d r) now2 c2 d)
                  = trace (getStatus_settled s1 now' c0 d r)
                    @ [Sent (injectToken (getStatus_settled s1 now' c0 d r)
                               (request c2 GET (status_url d) None))])
         | Some p \<Rightarrow>
             trace s1 = trace s \<and> statusPromises s1 d = Some p \<and>
             awaiting s1 = awaiting s @ map (\<lambda>c. (snd c, p)) calls"
proof (cases "statusPromises s d")
  case (Some p)
  have "cache s = cache s \<or> cache s = lru_delete (cache s) (status_key d)" by simp
  from getStatus_calls_join [OF Some this nolive] Some show ?thesis
    by (simp add: s1_def)
next
  case None
  let ?k = "status_key d"
  let ?s0 = "getStatus_call s n0 c0 d"
  from nolive have miss0: "fst (lru_get (cache s) n0 ?k) = None" by (simp add: calls_def)
  note f = getStatus_call_fetch [OF miss0 None, of c0]
  have p0: "statusPromises ?s0 d = Some c0" using f by simp
  have c0': "cache ?s0 = cache s \<or> cache ?s0 = lru_delete (cache s) ?k"
    using f lru_get_miss_cases [OF miss0] by simp
  have rest: "\<forall>c \<in> set rest. fst (lru_get (cache s) (fst c) ?k) = None"
    using nolive by (simp add: calls_def)
  have unf: "s1 = getStatus_calls ?s0 d rest"
    by (simp add: s1_def calls_def getStatus_calls_def)
  note j = getStatus_calls_join [OF p0 c0' rest, folded unf]
  have tr1: "trace s1 = trace s @ [Sent (injectToken s (request c0 GET (status_url d) None))]"
    using j f by simp
  have sp1: "statusPromises s1 d = Some c0" using j p0 by simp
  have aw1: "awaiting s1 = awaiting s @ map (\<lambda>c. (snd c, c0)) calls"
    using j f by (simp add: calls_def)
  let ?s2 = "getStatus_settled s1 now' c0 d r"
  have tr2: "trace ?s2 = trace s1 @ map (\<lambda>c. Returned c out)
                (map fst (filter (\<lambda>cq. snd cq = c0) (awaiting s)) @ map snd calls)"
    by (simp add: trace_getStatus_settled aw1 awaiting_filter_joined out_def comp_def)
  have sp2: "statusPromises ?s2 d = None"
    by (simp add: statusPromises_getStatus_settled)
  have later: "trace (getStatus_call ?s2 now2 c2 d)
                 = trace ?s2 @ [Sent (injectToken ?s2 (request c2 GET (status_url d) None))]"
    if "fst (lru_get (cache ?s2) now2 ?k) = None"
    using getStatus_call_fetch [OF that sp2, of c2] by simp
  from None tr1 sp1 aw1 tr2 sp2 later show ?thesis by simp
qed


theorem getStatus_single_flight_witness:
  "trace (getStatus_calls
            (run new_client [Init (Some (JObj [(''access_token'', JStr ''A1''),
                                               (''refresh_token'', JStr ''R1'')]))])
            ''ac'' [(3, 7), (4, 8), (5, 9)])
     = [Sent ((request 7 GET ''/devices/ac/status'' None)
                \<lparr>authorization := Some (Bearer (Some (JStr ''A1'')))\<rparr>)] \<and>
   trace (getStatus_settled
            (getStatus_calls
               (run new_client [Init (Some (JObj [(''access_token'', JStr ''A1''),
                                                  (''refresh_token'', JStr ''R1'')]))])
               ''ac'' [(3, 7), (4, 8), (5, 9)])
            10 7 ''ac'' (Inl (AxiosError (Some 404) False)))
     = [Sent ((request 7 GET ''/devices/ac/status'' None)
                \<lparr>authorization := Some (Bearer (Some (JStr ''A1'')))\<rparr>),
        Returned 7 (Inl (StatusFailure ''ac'')),
        Returned 8 (Inl (StatusFailure ''ac'')),
        Returned 9 (Inl (StatusFailure ''ac''))] \<and>
   trace (getStatus_call
            (getStatus_settled
               (getStatus_calls
                  (run new_client [Init (Some (JObj [(''access_token'', JStr ''A1''),
                                                     (''refresh_token'', JStr ''R1'')]))])
                  ''ac'' [(3, 7), (4, 8), (5, 9)])
               10 7 ''ac'' (Inl (AxiosError (Some 404) False)))
            20 11 ''ac'')
     = [Sent ((request 7 GET ''/devices/ac/status'' None)
                \<lparr>authorization := Some (Bearer (Some (JStr ''A1'')))\<rparr>),
        Returned 7 (Inl (StatusFailure ''ac'')),
        Returned 8 (Inl (StatusFailure ''ac'')),
        Returned 9 (Inl (StatusFailure ''ac'')),
        Sent ((request 11 GET ''/devices/ac/status'' None)
                \<lparr>authorization := Some (Bearer (Some (JStr ''A1'')))\<rparr>)]"
proof -
  let ?toks = "JObj [(''access_token'', JStr ''A1''), (''refresh_token'', JStr ''R1'')]"
  let ?s = "run new_client [Init (Some ?toks)]"
  let ?r = "Inl (AxiosError (Some 404) False) :: error + jsval"
  let ?s1 = "getStatus_calls ?s ''ac'' [(3, 7), (4, 8), (5, 9)]"
  let ?s2 = "getStatus_settled ?s1 10 7 ''ac'' ?r"
  have st: "tokens ?s = Some ?toks" "trace ?s = []" "awaiting ?s = []"
    "statusPromises ?s ''ac'' = None" "cache ?s = lru_new 100 5000"
    by (simp_all add: eval_defs)
  have nolive: "\<forall>c \<in> set ((3, 7) # [(4, 8), (5, 9)]).
      fst (lru_get (cache ?s) (fst c) (status_key ''ac'')) = None"
    by (simp add: st lru_get_def lru_new_def)
  note inst = getStatus_single_flight
    [where s = ?s and d = "''ac''" and ?n0.0 = 3 and ?c0.0 = 7 and rest = "[(4, 8), (5, 9)]"
       and now' = 10 and r = ?r and ?now2.0 = 20 and ?c2.0 = 11, OF nolive]
  have tk2: "tokens ?s2 = Some ?toks"
    by (simp add: eval_defs)
  have miss2: "fst (lru_get (cache ?s2) 20 (status_key ''ac'')) = None"
    by (simp add: eval_defs)
  have inj: "injectToken ?s cfg = cfg\<lparr>authorization := Some (Bearer (Some (JStr ''A1'')))\<rparr>"
    "injectToken ?s2 cfg = cfg\<lparr>authorization := Some (Bearer (Some (JStr ''A1'')))\<rparr>" for cfg
    by (simp_all add: injectToken_def st tk2 opt_member_def)
  from inst miss2 show ?thesis
    by (simp add: st inj status_url_def)
qed


subsection \<open>Commands invalidate the cache\<close>

lemma keys_lru_delete: "fst ` set (entries (lru_delete c k)) \<subseteq> fst ` set (entries c)"
  by (auto simp: lru_delete_def)

lemma keys_lru_get: "fst ` set (entries (snd (lru_get c now k))) \<subseteq> fst ` set (entries c)"
proof (cases "find (\<lambda>e. fst e = k) (entries c)")
  case None
  then show ?thesis by (simp add: lru_get_def)
next
  case (Some x)
  obtain k' v t where x: "x = (k', v, t)" by (cases x) auto
  from find_Some_mem [OF Some] x have "k \<in> fst ` set (entries c)" by force
  with Some x show ?thesis
    by (auto simp: lru_get_def lru_delete_def)
qed

lemma keys_lru_set:
  "fst ` set (entries (lru_set c now k v)) \<subseteq> insert k (fst ` set (entries c))"
  by (auto simp: lru_set_def Let_def dest!: in_set_butlastD split: if_splits)

lemma status_key_inj: "status_key d' = status_key d \<longleftrightarrow> d' = d"
  by (simp add: status_key_def)

lemma absent_step:
  assumes "status_key d \<notin> fst ` set (entries (cache s))" "\<not> stores_status d ev"
  shows "status_key d \<notin> fst ` set (entries (cache (step s ev)))"
proof (cases ev)
  case (CallGetStatus now caller d')
  from assms(1) keys_lru_get [of "cache s" now "status_key d'"]
  have "status_key d \<notin> fst ` set (entries (snd (lru_get (cache s) now (status_key d'))))"
    by blast
  with CallGetStatus show ?thesis by (simp add: cache_getStatus_call)
next
  case (StatusSettles now p d' r)
  show ?thesis
  proof (cases r)
    case (Inl e)
    with StatusSettles assms(1) show ?thesis by (simp add: cache_getStatus_settled)
  next
    case (Inr b)
    with StatusSettles assms(2) have "d' \<noteq> d" by (simp add: stores_status_def)
    then have "status_key d \<noteq> status_key d'" by (simp add: status_key_inj)
    with assms(1)
    have "status_key d \<notin> insert (status_key d') (fst ` set (entries (cache s)))"
      by blast
    with keys_lru_set [of "cache s" now "status_key d'" "statusData b"]
    have "status_key d \<notin> fst ` set (entries (lru_set (cache s) now (status_key d') (statusData b)))"
      by blast
    with Inr StatusSettles show ?thesis
      by (simp add: cache_getStatus_settled)
  qed
next
  case (CallSendCommand caller d' cmd)
  from assms(1) keys_lru_delete [of "cache s" "status_key d'"]
  have "status_key d \<notin> fst ` set (entries (lru_delete (cache s) (status_key d')))"
    by blast
  with CallSendCommand show ?thesis by (simp add: cache_sendCommand_call)
qed (use assms(1) in simp_all)

lemma absent_run:
  assumes "status_key d \<notin> fst ` set (entries (cache s))" "\<forall>ev \<in> set es. \<not> stores_status d ev"
  shows "status_key d \<notin> fst ` set (entries (cache (run s es)))"
  using assms unfolding run_def
proof (induction es arbitrary: s)
  case Nil
  then show ?case by simp
next
  case (Cons a es)
  from Cons.prems have "status_key d \<notin> fst ` set (entries (cache (step s a)))"
    by (intro absent_step) simp_all
  moreover from Cons.prems have "\<forall>ev \<in> set es. \<not> stores_status d ev" by simp
  ultimately have "status_key d \<notin> fst ` set (entries (cache (foldl step (step s a) es)))"
    by (rule Cons.IH)
  then show ?case by simp
qed

lemma trace_sendCommand_call:
  "trace (sendCommand_call s caller d command)
     = trace s @ [Sent (injectToken s (request caller POST (command_url d)
         (Some (JObj [(''commands'', case command of JArr xs \<Rightarrow> command | _ \<Rightarrow> JArr [command])]))))]"
  by (simp add: sendCommand_call_def send_def injectToken_def Let_def)

text \<open>
  C6, as the code has it. \<^verbatim>\<open>sendCommand\<close> removes the cache entry of the device before
  it puts the command on the network: when the request is sent the cache has no entry
  for the device. When the command has succeeded and, since it was sent, no status
  fetch of the device has settled with a response (whatever else happened), a
  \<^verbatim>\<open>getStatus\<close> for the device at any time, also within the time to live, finds nothing
  in the cache: it starts a fresh network fetch, or it waits for the fetch of the
  device that is in flight.
\<close>

theorem sendCommand_invalidates_before_send:
  fixes s :: client and caller :: nat and d :: string and command :: json
    and mid :: "event list" and res :: jsval
  defines "s1 \<equiv> sendCommand_call s caller d command"
  defines "s2 \<equiv> run s1 (mid @ [CommandSettles caller (Inr res)])"
  assumes quiet: "\<forall>ev \<in> set mid. \<not> stores_status d ev"
  shows "status_key d \<notin> fst ` set (entries (cache s1)) \<and>
         trace s1 = trace s @ [Sent (injectToken s (request caller POST (command_url d)
           (Some (JObj [(''commands'',
              case command of JArr xs \<Rightarrow> command | _ \<Rightarrow> JArr [command])]))))] \<and>
         trace s2 = trace (run s1 mid) @ [Returned caller (Inr None)] \<and>
         (\<forall>now c. fst (lru_get (cache s2) now (status_key d)) = None \<and>
            (case statusPromises s2 d of
               None \<Rightarrow>
                 trace (getStatus_call s2 now c d)
                   = trace s2 @ [Sent (injectToken s2 (request c GET (status_url d) None))]
             | Some p \<Rightarrow>
                 trace (getStatus_call s2 now c d) = trace s2 \<and>
                 awaiting (getStatus_call s2 now c d) = awaiting s2 @ [(c, p)]))"
proof -
  have a1: "status_key d \<notin> fst ` set (entries (cache s1))"
    unfolding s1_def by (simp add: cache_sendCommand_call lru_delete_absent)
  have tr1: "trace s1 = trace s @ [Sent (injectToken s (request caller POST (command_url d)
           (Some (JObj [(''commands'',
              case command of JArr xs \<Rightarrow> command | _ \<Rightarrow> JArr [command])]))))]"
    unfolding s1_def by (rule trace_sendCommand_call)
  have s2: "s2 = sendCommand_settled (run s1 mid) caller (Inr res)"
    by (simp add: s2_def run_def)
  have tr2: "trace s2 = trace (run s1 mid) @ [Returned caller (Inr None)]"
    by (simp add: s2 sendCommand_settled_def)
  have "status_key d \<notin> fst ` set (entries (cache (run s1 mid)))"
    by (rule absent_run [OF a1 quiet])
  then have a2: "status_key d \<notin> fst ` set (entries (cache s2))"
    by (simp add: s2)
  have miss: "fst (lru_get (cache s2) now (status_key d)) = None" for now
    by (simp add: lru_get_absent [OF a2])
  have after: "case statusPromises s2 d of
               None \<Rightarrow>
                 trace (getStatus_call s2 now c d)
                   = trace s2 @ [Sent (injectToken s2 (request c GET (status_url d) None))]
             | Some p \<Rightarrow>
                 trace (getStatus_call s2 now c d) = trace s2 \<and>
                 awaiting (getStatus_call s2 now c d) = awaiting s2 @ [(c, p)]" for now c
  proof (cases "statusPromises s2 d")
    case None
    with getStatus_call_fetch [OF miss None, of now c] show ?thesis by simp
  next
    case (Some p)
    with getStatus_call_join [OF miss Some, of now c] show ?thesis by simp
  qed
  from a1 tr1 tr2 miss after show ?thesis by simp
qed

theorem sendCommand_invalidates_before_send_witness:
  "fst (lru_get (cache (run new_client
          [Init (Some (JObj [(''access_token'', JStr ''A1''), (''refresh_token'', JStr ''R1'')])),
           CallGetStatus 3 7 ''ac'',
           StatusSettles 10 7 ''ac'' (Inr (Some (JObj [(''components'', JObj [(''main'',
              JObj [(''switch'', JObj [(''switch'', JObj [(''value'', JStr ''off'')])])])])])))]))
        20 (status_key ''ac''))
     = Some (JObj [(''switch'', JObj [(''switch'', JObj [(''value'', JStr ''off'')])])]) \<and>
   trace (getStatus_call
      (run (sendCommand_call
              (run new_client
                [Init (Some (JObj [(''access_token'', JStr ''A1''), (''refresh_token'', JStr ''R1'')])),
                 CallGetStatus 3 7 ''ac'',
                 StatusSettles 10 7 ''ac'' (Inr (Some (JObj [(''components'', JObj [(''main'',
                    JObj [(''switch'', JObj [(''switch'', JObj [(''value'', JStr ''off'')])])])])])))])
              8 ''ac'' (JObj [(''command'', JStr ''on'')]))
           ([CallGetStatus 12 9 ''tv''] @ [CommandSettles 8 (Inr None)]))
      20 11 ''ac'')
   = trace (run (sendCommand_call
              (run new_client
                [Init (Some (JObj [(''access_token'', JStr ''A1''), (''refresh_token'', JStr ''R1'')])),
                 CallGetStatus 3 7 ''ac'',
                 StatusSettles 10 7 ''ac'' (Inr (Some (JObj [(''components'', JObj [(''main'',
                    JObj [(''switch'', JObj [(''switch'', JObj [(''value'', JStr ''off'')])])])])])))])
              8 ''ac'' (JObj [(''command'', JStr ''on'')]))
           ([CallGetStatus 12 9 ''tv''] @ [CommandSettles 8 (Inr None)]))
     @ [Sent ((request 11 GET ''/devices/ac/status'' None)
                \<lparr>authorization := Some (Bearer (Some (JStr ''A1'')))\<rparr>)]"
proof -
  let ?s = "run new_client
     [Init (Some (JObj [(''access_token'', JStr ''A1''), (''refresh_token'', JStr ''R1'')])),
      CallGetStatus 3 7 ''ac'',
      StatusSettles 10 7 ''ac'' (Inr (Some (JObj [(''components'', JObj [(''main'',
         JObj [(''switch'', JObj [(''switch'', JObj [(''value'', JStr ''off'')])])])])])))]"
  let ?cmd = "JObj [(''command'', JStr ''on'')]"
  let ?mid = "[CallGetStatus 12 9 ''tv'']"
  let ?s2 = "run (sendCommand_call ?s 8 ''ac'' ?cmd) (?mid @ [CommandSettles 8 (Inr None)])"
  have quiet: "\<forall>ev \<in> set ?mid. \<not> stores_status ''ac'' ev"
    by (simp add: stores_status_def)
  note inst = sendCommand_invalidates_before_send
    [where s = ?s and caller = 8 and d = "''ac''" and command = ?cmd and mid = ?mid
       and res = None, OF quiet]
  have before: "fst (lru_get (cache ?s) 20 (status_key ''ac''))
                  = Some (JObj [(''switch'', JObj [(''switch'', JObj [(''value'', JStr ''off'')])])])"
    by (simp add: eval_defs)
  have sp: "statusPromises ?s2 ''ac'' = None"
    and tk: "tokens ?s2 = Some (JObj [(''access_token'', JStr ''A1''), (''refresh_token'', JStr ''R1'')])"
    by (simp_all add: eval_defs)
  have inj: "injectToken ?s2 cfg = cfg\<lparr>authorization := Some (Bearer (Some (JStr ''A1'')))\<rparr>" for cfg
    using tk by (simp add: injectToken_def opt_member_def)
  from inst
  have "case statusPromises ?s2 ''ac'' of
               None \<Rightarrow>
                 trace (getStatus_call ?s2 20 11 ''ac'')
                   = trace ?s2 @ [Sent (injectToken ?s2 (request 11 GET (status_url ''ac'') None))]
             | Some p \<Rightarrow>
                 trace (getStatus_call ?s2 20 11 ''ac'') = trace ?s2 \<and>
                 awaiting (getStatus_call ?s2 20 11 ''ac'') = awaiting ?s2 @ [(11, p)]"
    by blast
  then have "trace (getStatus_call ?s2 20 11 ''ac'')
               = trace ?s2 @ [Sent ((request 11 GET ''/devices/ac/status'' None)
                                 \<lparr>authorization := Some (Bearer (Some (JStr ''A1'')))\<rparr>)]"
    using sp inj by (simp add: status_url_def)
  with before show ?thesis by blast
qed

text \<open>
  C6 as stated fails when a status fetch of the device is in flight while the command
  is: the read of caller 7 starts a fetch, caller 8 sends a command, the fetch settles
  with the state \<^verbatim>\<open>off\<close> and stores it, the command succeeds, and the read of caller 9,
  made after the command has succeeded, is answered from the cache with no request on
  the network.
\<close>

theorem sendCommand_then_cached_read_counterexample:
  "trace (run new_client
     [Init (Some (JObj [(''access_token'', JStr ''A1''), (''refresh_token'', JStr ''R1'')])),
      CallGetStatus 3 7 ''ac'',
      CallSendCommand 8 ''ac'' (JObj [(''component'', JStr ''main''), (''capability'', JStr ''switch''),
                                      (''command'', JStr ''on'')]),
      StatusSettles 10 7 ''ac''
        (Inr (Some (JObj [(''components'', JObj [(''main'',
           JObj [(''switch'', JObj [(''switch'', JObj [(''value'', JStr ''off'')])])])])]))),
      CommandSettles 8 (Inr None),
      CallGetStatus 20 9 ''ac''])
   = [Sent ((request 7 GET ''/devices/ac/status'' None)
              \<lparr>authorization := Some (Bearer (Some (JStr ''A1'')))\<rparr>),
      Sent ((request 8 POST ''/devices/ac/commands''
               (Some (JObj [(''commands'', JArr [JObj [(''component'', JStr ''main''),
                   (''capability'', JStr ''switch''), (''command'', JStr ''on'')]])])))
              \<lparr>authorization := Some (Bearer (Some (JStr ''A1'')))\<rparr>),
      Returned 7 (Inr (Some (JObj [(''switch'', JObj [(''switch'', JObj [(''value'', JStr ''off'')])])]))),
      Returned 8 (Inr None),
      Returned 9 (Inr (Some (JObj [(''switch'', JObj [(''switch'', JObj [(''value'', JStr ''off'')])])])))]"
  by (simp add: eval_defs)



subsection \<open>Refreshing the token\<close>

lemma injectToken_trace [simp]: "injectToken (s\<lparr>trace := tr\<rparr>) c = injectToken s c"
  by (simp add: injectToken_def)

lemma injectToken_same:
  "opt_member (tokens s) ''access_token'' = tok \<Longrightarrow>
   injectToken s (c\<lparr>authorization := Some (Bearer tok)\<rparr>) = c\<lparr>authorization := Some (Bearer tok)\<rparr>"
  by (simp add: injectToken_def Let_def)

lemma flush_effect_trace [simp]: "flush_effect (s\<lparr>trace := tr\<rparr>) r c = flush_effect s r c"
  by (cases r) (simp_all add: flush_effect_def)

lemma flush_one_eq: "flush_one r s c = s\<lparr>trace := trace s @ [flush_effect s r c]\<rparr>"
  by (cases r) (simp_all add: flush_one_def flush_effect_def send_def)

lemma foldl_flush_one:
  "foldl (flush_one r) s ws = s\<lparr>trace := trace s @ map (flush_effect s r) ws\<rparr>"
  by (induction ws arbitrary: s) (simp_all add: flush_one_eq)

lemma flushWaiters_eq:
  "flushWaiters s r =
     s\<lparr>pendingRequests := [], trace := trace s @ map (flush_effect s r) (pendingRequests s)\<rparr>"
  by (simp add: flushWaiters_def foldl_flush_one)

lemma flush_effect_isRefreshing [simp]:
  "flush_effect (s\<lparr>isRefreshing := b\<rparr>) r c = flush_effect s r c"
  by (cases r) (simp_all add: flush_effect_def injectToken_def)

lemma refresh_settled_eq:
  "refresh_settled s original r =
     s\<lparr>isRefreshing := False, pendingRequests := [],
       trace := trace s @ map (flush_effect s r) (pendingRequests s @ [original])\<rparr>"
  by (cases r)
     (simp_all add: refresh_settled_def flushWaiters_eq send_def flush_effect_def injectToken_def Let_def)

lemma flush_effect_replay:
  assumes "case r of Inr tok \<Rightarrow> opt_member (tokens s) ''access_token'' = tok | Inl e \<Rightarrow> True"
  shows "flush_effect s r (c\<lparr>retry_flag := True\<rparr>) = replay_or_reject r c"
  using assms
  by (cases r) (simp_all add: flush_effect_def replay_or_reject_def injectToken_same)

text \<open>What \<^verbatim>\<open>await this.refreshToken()\<close> gives, and what the handler does with it.\<close>

lemma refresh_result_eq:
  "refresh_result s p net w =
     (case p of
        Some e \<Rightarrow> (Inl e, s)
      | None \<Rightarrow>
          (case net of
             Inl e \<Rightarrow> (Inl e, s)
           | Inr data \<Rightarrow>
               (case w of Some e \<Rightarrow> Inl e | None \<Rightarrow> member (Some data) ''access_token'',
                s\<lparr>tokens := Some data, trace := trace s @ [FileWrite data]\<rparr>)))"
  by (simp add: refresh_result_def refreshToken_settle_def saveTokens_def
      split: option.splits sum.splits)

lemma refresh_result_consistent:
  assumes "refresh_result s p net w = (Inr tok, s')"
  shows "opt_member (tokens s') ''access_token'' = tok"
proof -
  from assms obtain data where d: "p = None" "net = Inr data" "w = None"
    "member (Some data) ''access_token'' = Inr tok" "tokens s' = Some data"
    by (auto simp: refresh_result_eq split: option.splits sum.splits)
  from d(4) have "data \<noteq> JNull" by (auto simp: member_def)
  with d(4) have "getProp data ''access_token'' = tok" by (simp add: member_of_value)
  with \<open>data \<noteq> JNull\<close> d(5) show ?thesis by (simp add: opt_member_of_value)
qed

lemma refresh_result_fields:
  "isRefreshing (snd (refresh_result s p net w)) = isRefreshing s"
  "pendingRequests (snd (refresh_result s p net w)) = pendingRequests s"
  "suspended (snd (refresh_result s p net w)) = suspended s"
  "statusPromises (snd (refresh_result s p net w)) = statusPromises s"
  "awaiting (snd (refresh_result s p net w)) = awaiting s"
  by (simp_all add: refresh_result_eq split: option.splits sum.splits)

lemma refresh_resume_eq:
  assumes "suspended s = (original, p) # rest"
  shows "refresh_resume s net w =
           (let s' = snd (refresh_result (s\<lparr>suspended := rest\<rparr>) p net w);
                r = fst (refresh_result (s\<lparr>suspended := rest\<rparr>) p net w)
            in s'\<lparr>isRefreshing := False, pendingRequests := [],
                  trace := trace s' @ map (flush_effect s' r) (pendingRequests s @ [original])\<rparr>)"
proof -
  obtain r s' where rr: "refresh_result (s\<lparr>suspended := rest\<rparr>) p net w = (r, s')"
    by (cases "refresh_result (s\<lparr>suspended := rest\<rparr>) p net w")
  have "pendingRequests (snd (refresh_result (s\<lparr>suspended := rest\<rparr>) p net w))
          = pendingRequests (s\<lparr>suspended := rest\<rparr>)"
    by (rule refresh_result_fields)
  with rr have "pendingRequests s' = pendingRequests s" by simp
  with assms rr show ?thesis
    by (simp add: refresh_resume_def refresh_settled_eq Let_def)
qed

text \<open>The three ways of the rejection handler.\<close>

lemma response_rejected_surface:
  "retry_flag c \<or> status_of e \<noteq> Some 401 \<Longrightarrow>
   response_rejected s c e = s\<lparr>trace := trace s @ [RequestRejected (rid c) e]\<rparr>"
  by (auto simp: response_rejected_def)

lemma response_rejected_queue:
  "status_of e = Some 401 \<Longrightarrow> \<not> retry_flag c \<Longrightarrow> isRefreshing s \<Longrightarrow>
   response_rejected s c e = s\<lparr>pendingRequests := pendingRequests s @ [c\<lparr>retry_flag := True\<rparr>]\<rparr>"
  by (simp add: response_rejected_def Let_def)

lemma response_rejected_refresh:
  "status_of e = Some 401 \<Longrightarrow> \<not> retry_flag c \<Longrightarrow> \<not> isRefreshing s \<Longrightarrow>
   response_rejected s c e =
     (let rt = opt_member (tokens s) ''refresh_token''
      in s\<lparr>isRefreshing := True,
           suspended := suspended s @ [(c\<lparr>retry_flag := True\<rparr>,
                          if truthy rt then None else Some NoRefreshToken)],
           trace := trace s @ (if truthy rt then [RefreshCall rt] else [])\<rparr>)"
  by (simp add: response_rejected_def refreshToken_call_def Let_def)

lemma responses_rejected_queue:
  assumes "isRefreshing s" "\<forall>f \<in> set fs. status_of (snd f) = Some 401 \<and> \<not> retry_flag (fst f)"
  shows "responses_rejected s fs =
           s\<lparr>pendingRequests := pendingRequests s @ map (\<lambda>f. (fst f)\<lparr>retry_flag := True\<rparr>) fs\<rparr>"
  using assms
proof (induction fs arbitrary: s)
  case Nil
  then show ?case by (simp add: responses_rejected_def)
next
  case (Cons f fs)
  let ?s' = "response_rejected s (fst f) (snd f)"
  from Cons.prems have q: "?s' = s\<lparr>pendingRequests := pendingRequests s @ [(fst f)\<lparr>retry_flag := True\<rparr>]\<rparr>"
    by (intro response_rejected_queue) simp_all
  then have "isRefreshing ?s'" using Cons.prems(1) by simp
  moreover from Cons.prems have "\<forall>f \<in> set fs. status_of (snd f) = Some 401 \<and> \<not> retry_flag (fst f)"
    by simp
  ultimately have "responses_rejected ?s' fs =
      ?s'\<lparr>pendingRequests := pendingRequests ?s' @ map (\<lambda>f. (fst f)\<lparr>retry_flag := True\<rparr>) fs\<rparr>"
    by (rule Cons.IH)
  moreover have "responses_rejected s (f # fs) = responses_rejected ?s' fs"
    by (simp add: responses_rejected_def)
  ultimately show ?case by (simp add: q)
qed


text \<open>The refresh bookkeeping is consistent in every state of every run.\<close>

lemma refresh_ok_frame:
  assumes "isRefreshing s' = isRefreshing s" "suspended s' = suspended s"
    "pendingRequests s' = pendingRequests s"
  shows "refresh_ok s' = refresh_ok s"
  using assms by (simp add: refresh_ok_def)

lemma frame_getStatus_call:
  "isRefreshing (getStatus_call s now c d) = isRefreshing s"
  "suspended (getStatus_call s now c d) = suspended s"
  "pendingRequests (getStatus_call s now c d) = pendingRequests s"
  "tokens (getStatus_call s now c d) = tokens s"
  by (cases "lru_get (cache s) now (status_key d)"; cases "statusPromises s d";
      simp add: getStatus_call_def send_def Let_def)+

lemma frame_getStatus_settled:
  "isRefreshing (getStatus_settled s now p d r) = isRefreshing s"
  "suspended (getStatus_settled s now p d r) = suspended s"
  "pendingRequests (getStatus_settled s now p d r) = pendingRequests s"
  "tokens (getStatus_settled s now p d r) = tokens s"
  by (cases r; simp add: getStatus_settled_def Let_def)+

lemma frame_init:
  "isRefreshing (snd (init s file)) = isRefreshing s"
  "suspended (snd (init s file)) = suspended s"
  "pendingRequests (snd (init s file)) = pendingRequests s"
  by (cases "file"; simp add: init_def)+

lemma frame_getInitialTokens:
  "isRefreshing (snd (getInitialTokens s code net w)) = isRefreshing s"
  "suspended (snd (getInitialTokens s code net w)) = suspended s"
  "pendingRequests (snd (getInitialTokens s code net w)) = pendingRequests s"
  by (cases net; cases w; simp add: getInitialTokens_def saveTokens_def Let_def)+

lemma frame_getDevices:
  "isRefreshing (getDevices_call s c) = isRefreshing s"
  "suspended (getDevices_call s c) = suspended s"
  "pendingRequests (getDevices_call s c) = pendingRequests s"
  "isRefreshing (getDevices_settled s c r) = isRefreshing s"
  "suspended (getDevices_settled s c r) = suspended s"
  "pendingRequests (getDevices_settled s c r) = pendingRequests s"
  by (simp_all add: getDevices_call_def getDevices_settled_def send_def)

lemma frame_sendCommand:
  "isRefreshing (sendCommand_call s c d cmd) = isRefreshing s"
  "suspended (sendCommand_call s c d cmd) = suspended s"
  "pendingRequests (sendCommand_call s c d cmd) = pendingRequests s"
  "isRefreshing (sendCommand_settled s c r) = isRefreshing s"
  "suspended (sendCommand_settled s c r) = suspended s"
  "pendingRequests (sendCommand_settled s c r) = pendingRequests s"
  by (simp_all add: sendCommand_call_def sendCommand_settled_def send_def Let_def)

lemmas frame_other = frame_init frame_getInitialTokens frame_getDevices frame_sendCommand

lemma refresh_ok_response_rejected:
  assumes "refresh_ok s"
  shows "refresh_ok (response_rejected s c e)"
proof (cases "status_of e = Some 401 \<and> \<not> retry_flag c")
  case False
  then have "response_rejected s c e = s\<lparr>trace := trace s @ [RequestRejected (rid c) e]\<rparr>"
    by (intro response_rejected_surface) auto
  with assms show ?thesis by (auto simp: refresh_ok_def)
next
  case True
  show ?thesis
  proof (cases "isRefreshing s")
    case True
    with \<open>status_of e = Some 401 \<and> \<not> retry_flag c\<close>
    have "response_rejected s c e
            = s\<lparr>pendingRequests := pendingRequests s @ [c\<lparr>retry_flag := True\<rparr>]\<rparr>"
      by (intro response_rejected_queue) simp_all
    with assms True show ?thesis by (simp add: refresh_ok_def)
  next
    case False
    with assms have "suspended s = []" "pendingRequests s = []"
      by (auto simp: refresh_ok_def)
    moreover note response_rejected_refresh [of e c s]
    ultimately show ?thesis
      using True False by (simp add: refresh_ok_def Let_def)
  qed
qed

lemma refresh_ok_refresh_resume:
  assumes "refresh_ok s"
  shows "refresh_ok (refresh_resume s net w)"
proof (cases "suspended s")
  case Nil
  with assms show ?thesis by (simp add: refresh_resume_def)
next
  case (Cons a rest)
  obtain original p where a: "a = (original, p)" by (cases a)
  from assms Cons have rest: "rest = []" by (simp add: refresh_ok_def)
  have "suspended (snd (refresh_result (s\<lparr>suspended := rest\<rparr>) p net w)) = rest"
    by (simp add: refresh_result_fields)
  with refresh_resume_eq [of s original p rest net w] Cons a rest
  show ?thesis by (simp add: refresh_ok_def Let_def)
qed

lemma refresh_ok_step:
  assumes "refresh_ok s"
  shows "refresh_ok (step s ev)"
proof (cases ev)
  case (ResponseFails c e)
  with assms show ?thesis by (simp add: refresh_ok_response_rejected)
next
  case (RefreshSettles net w)
  with assms show ?thesis by (simp add: refresh_ok_refresh_resume)
next
  case (Init tf)
  with assms refresh_ok_frame [OF frame_init, of s tf] show ?thesis by simp
next
  case (GetInitialTokens code net w)
  with assms refresh_ok_frame [OF frame_getInitialTokens, of s code net w] show ?thesis by simp
next
  case (CallGetDevices c)
  with assms refresh_ok_frame [OF frame_getDevices(1-3), of s c] show ?thesis by simp
next
  case (DevicesSettle c r)
  with assms refresh_ok_frame [OF frame_getDevices(4-6), of s c r] show ?thesis by simp
next
  case (CallGetStatus now c d)
  with assms refresh_ok_frame [OF frame_getStatus_call(1-3), of s now c d] show ?thesis by simp
next
  case (StatusSettles now p d r)
  with assms refresh_ok_frame [OF frame_getStatus_settled(1-3), of s now p d r] show ?thesis by simp
next
  case (CallSendCommand c d cmd)
  with assms refresh_ok_frame [OF frame_sendCommand(1-3), of s c d cmd] show ?thesis by simp
next
  case (CommandSettles c r)
  with assms refresh_ok_frame [OF frame_sendCommand(4-6), of s c r] show ?thesis by simp
qed

lemma refresh_ok_run: "refresh_ok s \<Longrightarrow> refresh_ok (run s es)"
  unfolding run_def by (induction es arbitrary: s) (auto intro: refresh_ok_step)

lemma refresh_ok_new: "refresh_ok new_client"
  by (simp add: refresh_ok_def new_client_def)

lemma refresh_ok_reachable: "refresh_ok (run new_client es)"
  by (rule refresh_ok_run [OF refresh_ok_new])

lemma run_append: "run s (es @ es') = run (run s es) es'"
  by (simp add: run_def)


lemma refresh_result_trace:
  "trace (snd (refresh_result s p net w)) =
     trace s @ (case p of Some e \<Rightarrow> []
                | None \<Rightarrow> (case net of Inr data \<Rightarrow> [FileWrite data] | Inl e \<Rightarrow> []))"
  by (simp add: refresh_result_eq split: option.splits sum.splits)

lemma refresh_result_value:
  "fst (refresh_result s p net w) =
     (case p of Some e \<Rightarrow> Inl e
      | None \<Rightarrow> (case net of Inl e \<Rightarrow> Inl e
                 | Inr data \<Rightarrow> (case w of Some e \<Rightarrow> Inl e
                               | None \<Rightarrow> member (Some data) ''access_token'')))"
  by (simp add: refresh_result_eq split: option.splits sum.splits)

lemma flush_effects_replay:
  assumes "refresh_result s0 p net w = (r, s')"
  shows "map (flush_effect s' r) (map (\<lambda>c. c\<lparr>retry_flag := True\<rparr>) cs)
           = map (replay_or_reject r) cs"
proof -
  have "case r of Inr tok \<Rightarrow> opt_member (tokens s') ''access_token'' = tok | Inl e \<Rightarrow> True"
    using refresh_result_consistent [of s0 p net w _ s'] assms by (cases r) simp_all
  then show ?thesis by (simp add: flush_effect_replay)
qed

text \<open>
  C1, as the code has it. In a state the client can reach with no refresh in progress,
  let N requests (N at least one) that were not yet retried each fail with status 401,
  all handled before the refresh started by the first of them settles. Exactly one
  handler awaits \<^verbatim>\<open>refreshToken\<close> and the other N - 1 requests are queued. That one
  refresh attempt puts exactly one call to the token endpoint on the network when a
  refresh token is stored, and none when there is none (then it fails at once). When it
  settles, all N callers see the same outcome \<open>r\<close>: on success every request is sent
  again, marked as retried and with the same new access token; on failure every promise
  is rejected with the same error. The queue is empty afterwards and the flag is reset.
  In every continuation of the run at most one handler awaits a refresh.
\<close>

theorem refresh_single_flight:
  fixes es :: "event list" and c0 :: config and e0 :: error and fs :: "(config \<times> error) list"
    and net :: "error + json" and w :: "error option"
  defines "s \<equiv> run new_client es"
  defines "s1 \<equiv> responses_rejected s ((c0, e0) # fs)"
  defines "rt \<equiv> opt_member (tokens s) ''refresh_token''"
  defines "r \<equiv> (if \<not> truthy rt then Inl NoRefreshToken
                else case net of
                       Inl e \<Rightarrow> Inl e
                     | Inr data \<Rightarrow>
                         (case w of Some e \<Rightarrow> Inl e
                          | None \<Rightarrow> member (Some data) ''access_token''))"
  assumes idle: "\<not> isRefreshing s"
      and unauth: "\<forall>f \<in> set ((c0, e0) # fs). status_of (snd f) = Some 401 \<and> \<not> retry_flag (fst f)"
  shows "trace s1 = trace s @ (if truthy rt then [RefreshCall rt] else []) \<and>
         suspended s1 = [(c0\<lparr>retry_flag := True\<rparr>,
                          if truthy rt then None else Some NoRefreshToken)] \<and>
         pendingRequests s1 = map (\<lambda>f. (fst f)\<lparr>retry_flag := True\<rparr>) fs \<and>
         trace (refresh_resume s1 net w)
           = trace s1
             @ (case net of Inr data \<Rightarrow> if truthy rt then [FileWrite data] else [] | Inl e \<Rightarrow> [])
             @ map (replay_or_reject r) (map fst fs @ [c0]) \<and>
         \<not> isRefreshing (refresh_resume s1 net w) \<and>
         suspended (refresh_resume s1 net w) = [] \<and>
         pendingRequests (refresh_resume s1 net w) = [] \<and>
         (\<forall>es'. length (suspended (run s es')) \<le> 1)"
proof -
  let ?p = "if truthy rt then None else Some NoRefreshToken"
  let ?c0 = "c0\<lparr>retry_flag := True\<rparr>"
  have ok: "refresh_ok s" unfolding s_def by (rule refresh_ok_reachable)
  with idle have empty: "suspended s = []" "pendingRequests s = []"
    by (auto simp: refresh_ok_def)
  let ?s0 = "response_rejected s c0 e0"
  from unauth have u0: "status_of e0 = Some 401" "\<not> retry_flag c0" by simp_all
  have s0: "?s0 = s\<lparr>isRefreshing := True, suspended := [(?c0, ?p)],
                     trace := trace s @ (if truthy rt then [RefreshCall rt] else [])\<rparr>"
    using response_rejected_refresh [OF u0 idle] by (simp add: Let_def rt_def empty)
  have busy: "isRefreshing ?s0" by (simp add: s0)
  from unauth have rest: "\<forall>f \<in> set fs. status_of (snd f) = Some 401 \<and> \<not> retry_flag (fst f)"
    by simp
  have "s1 = responses_rejected ?s0 fs"
    by (simp add: s1_def responses_rejected_def)
  with responses_rejected_queue [OF busy rest]
  have s1: "s1 = s\<lparr>isRefreshing := True, suspended := [(?c0, ?p)],
                    pendingRequests := map (\<lambda>f. (fst f)\<lparr>retry_flag := True\<rparr>) fs,
                    trace := trace s @ (if truthy rt then [RefreshCall rt] else [])\<rparr>"
    by (simp add: s0 empty)
  have 1: "trace s1 = trace s @ (if truthy rt then [RefreshCall rt] else [])"
    and 2: "suspended s1 = [(?c0, ?p)]"
    and 3: "pendingRequests s1 = map (\<lambda>f. (fst f)\<lparr>retry_flag := True\<rparr>) fs"
    by (simp_all add: s1)
  obtain r' s' where rr: "refresh_result (s1\<lparr>suspended := []\<rparr>) ?p net w = (r', s')"
    by (cases "refresh_result (s1\<lparr>suspended := []\<rparr>) ?p net w")
  have r': "r' = r"
    using refresh_result_value [of "s1\<lparr>suspended := []\<rparr>" ?p net w] rr
    by (simp add: r_def)
  have tr': "trace s' = trace s1
               @ (case net of Inr data \<Rightarrow> if truthy rt then [FileWrite data] else [] | Inl e \<Rightarrow> [])"
    using refresh_result_trace [of "s1\<lparr>suspended := []\<rparr>" ?p net w] rr
    by (simp split: sum.splits)
  have fl: "suspended s' = []"
    using refresh_result_fields(3) [of "s1\<lparr>suspended := []\<rparr>" ?p net w] rr by simp
  have marked: "pendingRequests s1 @ [?c0] = map (\<lambda>c. c\<lparr>retry_flag := True\<rparr>) (map fst fs @ [c0])"
    by (simp add: 3 comp_def)
  have resume: "refresh_resume s1 net w =
      s'\<lparr>isRefreshing := False, pendingRequests := [],
         trace := trace s' @ map (flush_effect s' r') (pendingRequests s1 @ [?c0])\<rparr>"
    using refresh_resume_eq [OF 2, of net w] rr by (simp add: Let_def)
  have fe: "map (flush_effect s' r') (map (\<lambda>c. c\<lparr>retry_flag := True\<rparr>) (map fst fs @ [c0]))
              = map (replay_or_reject r') (map fst fs @ [c0])"
    by (rule flush_effects_replay [OF rr])
  have "trace (refresh_resume s1 net w)
          = trace s' @ map (flush_effect s' r') (pendingRequests s1 @ [?c0])"
    by (simp add: resume)
  also have "\<dots> = trace s' @ map (replay_or_reject r') (map fst fs @ [c0])"
    unfolding marked fe ..
  finally have 4: "trace (refresh_resume s1 net w)
           = trace s1
             @ (case net of Inr data \<Rightarrow> if truthy rt then [FileWrite data] else [] | Inl e \<Rightarrow> [])
             @ map (replay_or_reject r) (map fst fs @ [c0])"
    unfolding tr' r' by simp
  have 5: "\<not> isRefreshing (refresh_resume s1 net w)"
    "suspended (refresh_resume s1 net w) = []"
    "pendingRequests (refresh_resume s1 net w) = []"
    by (simp_all add: resume fl)
  have 6: "length (suspended (run s es')) \<le> 1" for es'
  proof -
    have "refresh_ok (run new_client (es @ es'))" by (rule refresh_ok_reachable)
    then show ?thesis by (simp add: s_def run_append refresh_ok_def)
  qed
  from 1 2 3 4 5 6 show ?thesis by blast
qed


theorem refresh_single_flight_witness:
  "trace (refresh_resume
            (responses_rejected
               (run new_client [Init (Some (JObj [(''access_token'', JStr ''A1''),
                                                  (''refresh_token'', JStr ''R1'')]))])
               [(request 7 GET ''/devices'' None, AxiosError (Some 401) False),
                (request 8 GET ''/devices/ac/status'' None, AxiosError (Some 401) False),
                (request 9 GET ''/devices/tv/status'' None, AxiosError (Some 401) False)])
            (Inr (JObj [(''access_token'', JStr ''A2''), (''refresh_token'', JStr ''R2'')])) None)
     = [RefreshCall (Some (JStr ''R1'')),
        FileWrite (JObj [(''access_token'', JStr ''A2''), (''refresh_token'', JStr ''R2'')]),
        Sent ((request 8 GET ''/devices/ac/status'' None)
                \<lparr>retry_flag := True, authorization := Some (Bearer (Some (JStr ''A2'')))\<rparr>),
        Sent ((request 9 GET ''/devices/tv/status'' None)
                \<lparr>retry_flag := True, authorization := Some (Bearer (Some (JStr ''A2'')))\<rparr>),
        Sent ((request 7 GET ''/devices'' None)
                \<lparr>retry_flag := True, authorization := Some (Bearer (Some (JStr ''A2'')))\<rparr>)] \<and>
   trace (refresh_resume
            (responses_rejected
               (run new_client [Init (Some (JObj [(''access_token'', JStr ''A1''),
                                                  (''refresh_token'', JStr ''R1'')]))])
               [(request 7 GET ''/devices'' None, AxiosError (Some 401) False),
                (request 8 GET ''/devices/ac/status'' None, AxiosError (Some 401) False),
                (request 9 GET ''/devices/tv/status'' None, AxiosError (Some 401) False)])
            (Inl (AxiosError (Some 400) False)) None)
     = [RefreshCall (Some (JStr ''R1'')),
        RequestRejected 8 (AxiosError (Some 400) False),
        RequestRejected 9 (AxiosError (Some 400) False),
        RequestRejected 7 (AxiosError (Some 400) False)]"
proof -
  let ?s = "run new_client [Init (Some (JObj [(''access_token'', JStr ''A1''),
                                              (''refresh_token'', JStr ''R1'')]))]"
  let ?c0 = "request 7 GET ''/devices'' None"
  let ?e = "AxiosError (Some 401) False"
  let ?fs = "[(request 8 GET ''/devices/ac/status'' None, ?e),
              (request 9 GET ''/devices/tv/status'' None, ?e)]"
  have st: "\<not> isRefreshing ?s" "trace ?s = []"
    "opt_member (tokens ?s) ''refresh_token'' = Some (JStr ''R1'')"
    by (simp_all add: eval_defs)
  have unauth: "\<forall>f \<in> set ((?c0, ?e) # ?fs). status_of (snd f) = Some 401 \<and> \<not> retry_flag (fst f)"
    by (simp add: status_of_def request_def)
  note ok = refresh_single_flight [where es = "[Init (Some (JObj [(''access_token'', JStr ''A1''),
                 (''refresh_token'', JStr ''R1'')]))]" and ?c0.0 = ?c0 and ?e0.0 = ?e and fs = ?fs
               and net = "Inr (JObj [(''access_token'', JStr ''A2''), (''refresh_token'', JStr ''R2'')])"
               and w = None, OF st(1) unauth]
  note ko = refresh_single_flight [where es = "[Init (Some (JObj [(''access_token'', JStr ''A1''),
                 (''refresh_token'', JStr ''R1'')]))]" and ?c0.0 = ?c0 and ?e0.0 = ?e and fs = ?fs
               and net = "Inl (AxiosError (Some 400) False)" and w = None, OF st(1) unauth]
  from ok ko show ?thesis
    by (simp add: st replay_or_reject_def member_def request_def)
qed

text \<open>
  C1 as stated fails when the stored tokens have no refresh token (line 149 throws
  before the network call): two requests get a 401, and both are rejected without any
  call to the token endpoint.
\<close>

theorem refresh_without_token_counterexample:
  "trace (refresh_resume
            (responses_rejected
               (run new_client [Init (Some (JObj [(''access_token'', JStr ''A1'')]))])
               [((request 7 GET ''/devices'' None)
                   \<lparr>authorization := Some (Bearer (Some (JStr ''A1'')))\<rparr>,
                 AxiosError (Some 401) False),
                ((request 8 GET ''/devices/ac/status'' None)
                   \<lparr>authorization := Some (Bearer (Some (JStr ''A1'')))\<rparr>,
                 AxiosError (Some 401) False)])
            (Inr (JObj [(''access_token'', JStr ''A2''), (''refresh_token'', JStr ''R2'')])) None)
     = [RequestRejected 8 NoRefreshToken, RequestRejected 7 NoRefreshToken]"
  by (simp add: eval_defs)


subsection \<open>One retry after an authorization failure\<close>

lemma flush_effect_Sent_flag:
  "flush_effect s r c = Sent c' \<Longrightarrow> retry_flag c' = retry_flag c"
  by (cases r) (auto simp: flush_effect_def injectToken_def Let_def split: if_splits)

lemma refresh_resume_new_effects:
  "\<exists>new. trace (refresh_resume s net w) = trace s @ new \<and>
     (\<forall>c'. Sent c' \<in> set new \<longrightarrow>
        (\<exists>c \<in> set (pendingRequests s) \<union> fst ` set (suspended s). retry_flag c' = retry_flag c))"
proof (cases "suspended s")
  case Nil
  then show ?thesis by (simp add: refresh_resume_def)
next
  case (Cons a rest)
  obtain original p where a: "a = (original, p)" by (cases a)
  let ?s' = "snd (refresh_result (s\<lparr>suspended := rest\<rparr>) p net w)"
  let ?r = "fst (refresh_result (s\<lparr>suspended := rest\<rparr>) p net w)"
  let ?pre = "case p of Some e \<Rightarrow> []
                | None \<Rightarrow> (case net of Inr data \<Rightarrow> [FileWrite data] | Inl e \<Rightarrow> [])"
  let ?new = "?pre @ map (flush_effect ?s' ?r) (pendingRequests s @ [original])"
  have susp: "suspended s = (original, p) # rest" using Cons a by simp
  have "trace (refresh_resume s net w) = trace s @ ?new"
    using refresh_resume_eq [OF susp, of net w]
      refresh_result_trace [of "s\<lparr>suspended := rest\<rparr>" p net w]
    by (simp add: Let_def)
  moreover have "\<exists>c \<in> set (pendingRequests s) \<union> fst ` set (suspended s). retry_flag c' = retry_flag c"
    if "Sent c' \<in> set ?new" for c'
  proof -
    from that have "Sent c' \<in> set (map (flush_effect ?s' ?r) (pendingRequests s @ [original]))"
      by (auto split: option.splits sum.splits)
    then have "\<exists>c \<in> set (pendingRequests s @ [original]). flush_effect ?s' ?r c = Sent c'"
      unfolding set_map image_iff by (rule bexE) (rule bexI, rule sym)
    then obtain c where c: "c \<in> set (pendingRequests s @ [original])"
      "flush_effect ?s' ?r c = Sent c'"
      by blast
    from c(1) susp have "c \<in> set (pendingRequests s) \<union> fst ` set (suspended s)" by force
    with flush_effect_Sent_flag [OF c(2)] show ?thesis by blast
  qed
  ultimately show ?thesis by blast
qed

text \<open>
  C3. In every state the client can reach: a request that fails with 401 and was not
  retried before is kept marked (\<^verbatim>\<open>_retry\<close>) by the handler, queued or with the handler
  that awaits the refresh; every queued or awaiting request is marked; so every request
  that a settled refresh sends again is marked. When a marked request fails, with 401
  or anything else, the handler only rejects its promise with that error: the request
  is not queued, no refresh starts, and nothing else changes.
\<close>

theorem auth_retry_at_most_once:
  fixes es :: "event list" and c :: config and e :: error
    and net :: "error + json" and w :: "error option"
  defines "s \<equiv> run new_client es"
  shows "(status_of e = Some 401 \<and> \<not> retry_flag c \<longrightarrow>
            c\<lparr>retry_flag := True\<rparr>
              \<in> set (pendingRequests (response_rejected s c e))
                \<union> fst ` set (suspended (response_rejected s c e))) \<and>
         list_all retry_flag (pendingRequests s) \<and>
         list_all (\<lambda>x. retry_flag (fst x)) (suspended s) \<and>
         (\<forall>c'. Sent c' \<in> set (drop (length (trace s)) (trace (refresh_resume s net w)))
                 \<longrightarrow> retry_flag c') \<and>
         (retry_flag c \<longrightarrow>
            response_rejected s c e = s\<lparr>trace := trace s @ [RequestRejected (rid c) e]\<rparr>)"
proof -
  have ok: "refresh_ok s" unfolding s_def by (rule refresh_ok_reachable)
  then have flags: "list_all retry_flag (pendingRequests s)"
    "list_all (\<lambda>x. retry_flag (fst x)) (suspended s)"
    by (simp_all add: refresh_ok_def)
  have 1: "c\<lparr>retry_flag := True\<rparr>
             \<in> set (pendingRequests (response_rejected s c e))
               \<union> fst ` set (suspended (response_rejected s c e))"
    if u: "status_of e = Some 401 \<and> \<not> retry_flag c"
  proof (cases "isRefreshing s")
    case True
    with u response_rejected_queue [of e c s] show ?thesis by simp
  next
    case False
    with u response_rejected_refresh [of e c s] show ?thesis by (simp add: Let_def)
  qed
  have 2: "retry_flag c'"
    if "Sent c' \<in> set (drop (length (trace s)) (trace (refresh_resume s net w)))" for c'
  proof -
    from refresh_resume_new_effects [of s net w] obtain new where
      new: "trace (refresh_resume s net w) = trace s @ new"
      "\<forall>c'. Sent c' \<in> set new \<longrightarrow>
        (\<exists>c \<in> set (pendingRequests s) \<union> fst ` set (suspended s). retry_flag c' = retry_flag c)"
      by blast
    from that new(1) have "Sent c' \<in> set new" by simp
    with new(2) obtain c0 where "c0 \<in> set (pendingRequests s) \<union> fst ` set (suspended s)"
      "retry_flag c' = retry_flag c0" by blast
    with flags show ?thesis by (auto simp: list_all_iff)
  qed
  have 3: "response_rejected s c e = s\<lparr>trace := trace s @ [RequestRejected (rid c) e]\<rparr>"
    if "retry_flag c"
    using that by (intro response_rejected_surface) simp
  from 1 flags 2 3 show ?thesis by blast
qed


theorem auth_retry_at_most_once_witness:
  "(request 7 GET ''/devices'' None)\<lparr>retry_flag := True\<rparr>
     \<in> set (pendingRequests (response_rejected
               (run new_client
                  [Init (Some (JObj [(''access_token'', JStr ''A1''), (''refresh_token'', JStr ''R1'')]))])
               (request 7 GET ''/devices'' None) (AxiosError (Some 401) False)))
       \<union> fst ` set (suspended (response_rejected
               (run new_client
                  [Init (Some (JObj [(''access_token'', JStr ''A1''), (''refresh_token'', JStr ''R1'')]))])
               (request 7 GET ''/devices'' None) (AxiosError (Some 401) False))) \<and>
   retry_flag ((request 7 GET ''/devices'' None)
                 \<lparr>retry_flag := True, authorization := Some (Bearer (Some (JStr ''A2'')))\<rparr>) \<and>
   trace (response_rejected
            (run new_client
               [Init (Some (JObj [(''access_token'', JStr ''A1''), (''refresh_token'', JStr ''R1'')])),
                ResponseFails (request 7 GET ''/devices'' None) (AxiosError (Some 401) False),
                RefreshSettles (Inr (JObj [(''access_token'', JStr ''A2''),
                                           (''refresh_token'', JStr ''R2'')])) None])
            ((request 7 GET ''/devices'' None)
               \<lparr>retry_flag := True, authorization := Some (Bearer (Some (JStr ''A2'')))\<rparr>)
            (AxiosError (Some 401) False))
     = [RefreshCall (Some (JStr ''R1'')),
        FileWrite (JObj [(''access_token'', JStr ''A2''), (''refresh_token'', JStr ''R2'')]),
        Sent ((request 7 GET ''/devices'' None)
                \<lparr>retry_flag := True, authorization := Some (Bearer (Some (JStr ''A2'')))\<rparr>),
        RequestRejected 7 (AxiosError (Some 401) False)] \<and>
   suspended (response_rejected
            (run new_client
               [Init (Some (JObj [(''access_token'', JStr ''A1''), (''refresh_token'', JStr ''R1'')])),
                ResponseFails (request 7 GET ''/devices'' None) (AxiosError (Some 401) False),
                RefreshSettles (Inr (JObj [(''access_token'', JStr ''A2''),
                                           (''refresh_token'', JStr ''R2'')])) None])
            ((request 7 GET ''/devices'' None)
               \<lparr>retry_flag := True, authorization := Some (Bearer (Some (JStr ''A2'')))\<rparr>)
            (AxiosError (Some 401) False)) = [] \<and>
   pendingRequests (response_rejected
            (run new_client
               [Init (Some (JObj [(''access_token'', JStr ''A1''), (''refresh_token'', JStr ''R1'')])),
                ResponseFails (request 7 GET ''/devices'' None) (AxiosError (Some 401) False),
                RefreshSettles (Inr (JObj [(''access_token'', JStr ''A2''),
                                           (''refresh_token'', JStr ''R2'')])) None])
            ((request 7 GET ''/devices'' None)
               \<lparr>retry_flag := True, authorization := Some (Bearer (Some (JStr ''A2'')))\<rparr>)
            (AxiosError (Some 401) False)) = []"
proof -
  let ?toks = "JObj [(''access_token'', JStr ''A1''), (''refresh_token'', JStr ''R1'')]"
  let ?new = "JObj [(''access_token'', JStr ''A2''), (''refresh_token'', JStr ''R2'')]"
  let ?orig = "request 7 GET ''/devices'' None"
  let ?e = "AxiosError (Some 401) False"
  let ?esa = "[Init (Some ?toks)]"
  let ?esb = "[Init (Some ?toks), ResponseFails ?orig ?e]"
  let ?es = "[Init (Some ?toks), ResponseFails ?orig ?e, RefreshSettles (Inr ?new) None]"
  let ?c = "?orig\<lparr>retry_flag := True, authorization := Some (Bearer (Some (JStr ''A2'')))\<rparr>"
  have first: "status_of ?e = Some 401 \<and> \<not> retry_flag ?orig"
    by (simp add: status_of_def request_def)
  from auth_retry_at_most_once [where es = ?esa and c = ?orig and e = ?e] first
  have 1: "?orig\<lparr>retry_flag := True\<rparr>
             \<in> set (pendingRequests (response_rejected (run new_client ?esa) ?orig ?e))
               \<union> fst ` set (suspended (response_rejected (run new_client ?esa) ?orig ?e))"
    by blast
  have tr2: "trace (run new_client ?esb) = [RefreshCall (Some (JStr ''R1''))]"
    by (simp add: eval_defs)
  have "trace (refresh_resume (run new_client ?esb) (Inr ?new) None)
          = [RefreshCall (Some (JStr ''R1'')), FileWrite ?new, Sent ?c]"
    by (simp add: eval_defs)
  then have sent: "Sent ?c \<in> set (drop (length (trace (run new_client ?esb)))
                             (trace (refresh_resume (run new_client ?esb) (Inr ?new) None)))"
    by (simp add: tr2)
  from auth_retry_at_most_once [where es = ?esb and net = "Inr ?new" and w = None] sent
  have 2: "retry_flag ?c"
    by blast
  from auth_retry_at_most_once [where es = ?es and c = ?c and e = ?e] 2
  have eq: "response_rejected (run new_client ?es) ?c ?e
          = (run new_client ?es)\<lparr>trace := trace (run new_client ?es) @ [RequestRejected (rid ?c) ?e]\<rparr>"
    by blast
  have st: "trace (run new_client ?es) = [RefreshCall (Some (JStr ''R1'')), FileWrite ?new, Sent ?c]"
    "suspended (run new_client ?es) = []" "pendingRequests (run new_client ?es) = []"
    by (simp_all add: eval_defs)
  have 3: "trace (response_rejected (run new_client ?es) ?c ?e)
             = [RefreshCall (Some (JStr ''R1'')), FileWrite ?new, Sent ?c, RequestRejected 7 ?e]"
    "suspended (response_rejected (run new_client ?es) ?c ?e) = []"
    "pendingRequests (response_rejected (run new_client ?es) ?c ?e) = []"
    unfolding eq using st by (simp_all add: request_def)
  from 1 2 3 show ?thesis by (intro conjI)
qed

subsection \<open>Retries of transient failures\<close>












subsection \<open>Saving the tokens\<close>

text \<open>
  C5, as the code has it. When the token endpoint has answered a refresh or an exchange
  with new tokens, they replace the tokens in memory and are handed to the file write
  before the operation returns. When the write succeeds the refresh gives the new
  access token and the exchange succeeds. When the write fails the operation fails too:
  the refresh throws the error of the write, the exchange throws its own error; the
  tokens in memory stay the new ones.
\<close>

theorem tokens_saved_before_return:
  fixes s :: client and data :: json and w :: "error option" and code :: string
  shows "refreshToken_settle s (Inr data) w
           = (case w of Some e \<Rightarrow> Inl e | None \<Rightarrow> member (Some data) ''access_token'',
              s\<lparr>tokens := Some data, trace := trace s @ [FileWrite data]\<rparr>) \<and>
         getInitialTokens s code (Inr data) w
           = (case w of Some e \<Rightarrow> Inl InitialTokenFailure | None \<Rightarrow> Inr (),
              s\<lparr>tokens := Some data, trace := trace s @ [ExchangeCall code, FileWrite data]\<rparr>)"
  by (cases w) (simp_all add: refreshToken_settle_def getInitialTokens_def saveTokens_def Let_def)

theorem tokens_saved_before_return_witness:
  "fst (refreshToken_settle new_client
          (Inr (JObj [(''access_token'', JStr ''A2''), (''refresh_token'', JStr ''R2'')])) None)
     = Inr (Some (JStr ''A2'')) \<and>
   trace (snd (refreshToken_settle new_client
          (Inr (JObj [(''access_token'', JStr ''A2''), (''refresh_token'', JStr ''R2'')])) None))
     = [FileWrite (JObj [(''access_token'', JStr ''A2''), (''refresh_token'', JStr ''R2'')])] \<and>
   tokens (snd (getInitialTokens new_client ''code''
          (Inr (JObj [(''access_token'', JStr ''A2''), (''refresh_token'', JStr ''R2'')]))
          (Some IOError)))
     = Some (JObj [(''access_token'', JStr ''A2''), (''refresh_token'', JStr ''R2'')])"
  using tokens_saved_before_return
    [of new_client "JObj [(''access_token'', JStr ''A2''), (''refresh_token'', JStr ''R2'')]" None]
    tokens_saved_before_return
    [of new_client "JObj [(''access_token'', JStr ''A2''), (''refresh_token'', JStr ''R2'')]"
        "Some IOError" "''code''"]
  by (simp add: member_def new_client_def)

text \<open>
  C5 as stated fails when the write fails: the claim has the operation report success,
  the code rejects both the refresh and the exchange.
\<close>

theorem persistence_failure_counterexample:
  "fst (refreshToken_settle new_client
          (Inr (JObj [(''access_token'', JStr ''A2''), (''refresh_token'', JStr ''R2'')]))
          (Some IOError))
     = Inl IOError \<and>
   fst (getInitialTokens new_client ''code''
          (Inr (JObj [(''access_token'', JStr ''A2''), (''refresh_token'', JStr ''R2'')]))
          (Some IOError))
     = Inl InitialTokenFailure"
  by (simp add: refreshToken_settle_def getInitialTokens_def saveTokens_def Let_def)

subsection \<open>After a failed refresh\<close>







end
